theory Spec2Isabelle
  imports Main
begin

section \<open>Python strings and the string primitives of \<^verbatim>\<open>eptools.py\<close>\<close>

text \<open>
  A Python \<^verbatim>\<open>str\<close> is a sequence of Unicode code points. Isabelle's \<open>char\<close> has
  eight bits only, so a code point is a natural number and a string a list of them.
\<close>

type_synonym ustr = "nat list"

definition of_ascii :: "string \<Rightarrow> ustr" where
  "of_ascii s = map of_char s"

datatype error = ValueError

text \<open>\<^verbatim>\<open>sys.maxunicode\<close> is 0x10FFFF; \<^verbatim>\<open>chr(i)\<close> raises \<^verbatim>\<open>ValueError\<close> outside
  \<^verbatim>\<open>range(0x110000)\<close>.\<close>

definition sys_maxunicode :: nat where
  "sys_maxunicode = 1114111"

definition py_chr :: "nat \<Rightarrow> error + nat" where
  "py_chr i = (if i < 1114112 then Inr i else Inl ValueError)"

text \<open>
  The whitespace of \<^verbatim>\<open>str.split()\<close>, \<^verbatim>\<open>str.strip()\<close> and of \<^verbatim>\<open>\s\<close> in a
  \<^verbatim>\<open>str\<close> pattern (CPython's \<^verbatim>\<open>Py_UNICODE_ISSPACE\<close>): U+0009..U+000D, U+001C..U+001F,
  U+0020, U+0085, U+00A0, U+1680, U+2000..U+200A, U+2028, U+2029, U+202F, U+205F, U+3000.
\<close>

definition is_space :: "nat \<Rightarrow> bool" where
  "is_space c = ((9 \<le> c \<and> c \<le> 13) \<or> (28 \<le> c \<and> c \<le> 32) \<or> c = 133 \<or> c = 160
     \<or> c = 5760 \<or> (8192 \<le> c \<and> c \<le> 8202) \<or> c = 8232 \<or> c = 8233 \<or> c = 8239
     \<or> c = 8287 \<or> c = 12288)"

text \<open>\<^verbatim>\<open>s.split()\<close>: the maximal runs of non-whitespace, scanned left to right; \<open>w\<close> is
  the word being collected.\<close>

fun split_ws_acc :: "ustr \<Rightarrow> ustr \<Rightarrow> ustr list" where
  "split_ws_acc w [] = (if w = [] then [] else [w])"
| "split_ws_acc w (c # cs) =
     (if is_space c then (if w = [] then split_ws_acc [] cs else w # split_ws_acc [] cs)
      else split_ws_acc (w @ [c]) cs)"

definition py_split :: "ustr \<Rightarrow> ustr list" where
  "py_split s = split_ws_acc [] s"

text \<open>\<^verbatim>\<open>s.split(sep)\<close> for a separator of one character: empty pieces are kept, and
  the empty string gives one empty piece.\<close>

fun split_sep_acc :: "nat \<Rightarrow> ustr \<Rightarrow> ustr \<Rightarrow> ustr list" where
  "split_sep_acc sep w [] = [w]"
| "split_sep_acc sep w (c # cs) =
     (if c = sep then w # split_sep_acc sep [] cs else split_sep_acc sep (w @ [c]) cs)"

definition py_split_sep :: "nat \<Rightarrow> ustr \<Rightarrow> ustr list" where
  "py_split_sep sep s = split_sep_acc sep [] s"

fun py_join :: "ustr \<Rightarrow> ustr list \<Rightarrow> ustr" where
  "py_join sep [] = []"
| "py_join sep [w] = w"
| "py_join sep (w # v # ws) = w @ sep @ py_join sep (v # ws)"

definition py_strip :: "ustr \<Rightarrow> ustr" where
  "py_strip s = rev (dropWhile is_space (rev (dropWhile is_space s)))"

text \<open>
  A translation table is a dict from code points to a replacement: a string, or
  \<^verbatim>\<open>None\<close>, which deletes the character. \<^verbatim>\<open>{key: fill for key in keys}\<close> and
  \<^verbatim>\<open>dict.fromkeys(keys)\<close> build the two tables of the source; a later key overwrites an
  earlier equal one. \<^verbatim>\<open>str.translate\<close> keeps a character that is not a key.
\<close>

type_synonym table = "nat \<rightharpoonup> ustr option"

definition dict_comp :: "ustr \<Rightarrow> ustr \<Rightarrow> table" where
  "dict_comp keys v = fold (\<lambda>k m. m(k \<mapsto> Some v)) keys Map.empty"

definition dict_fromkeys :: "nat list \<Rightarrow> table" where
  "dict_fromkeys keys = fold (\<lambda>k m. m(k \<mapsto> None)) keys Map.empty"

definition py_translate :: "table \<Rightarrow> ustr \<Rightarrow> ustr" where
  "py_translate tbl s =
     concat (map (\<lambda>c. case tbl c of None \<Rightarrow> [c] | Some None \<Rightarrow> [] | Some (Some r) \<Rightarrow> r) s)"

text \<open>
  \<^verbatim>\<open>re.sub(r"[-\<guillemotright>\<emdash>]\s?\n", "", text, flags=re.MULTILINE)\<close>: the matches are found left
  to right and do not overlap. At a character of the class (U+002D, U+00BB, U+2014) the
  greedy \<^verbatim>\<open>\s?\<close> first takes one whitespace character, which needs a newline after it;
  failing that it takes none, which needs the newline at once. The flag only changes
  \<^verbatim>\<open>^\<close> and \<^verbatim>\<open>$\<close>, which the pattern does not use.
\<close>

definition is_hyphen :: "nat \<Rightarrow> bool" where
  "is_hyphen c = (c = 45 \<or> c = 187 \<or> c = 8212)"

fun re_sub_unhyphenate :: "ustr \<Rightarrow> ustr" where
  "re_sub_unhyphenate (c # w # n # cs) =
     (if is_hyphen c \<and> is_space w \<and> n = 10 then re_sub_unhyphenate cs
      else if is_hyphen c \<and> w = 10 then re_sub_unhyphenate (n # cs)
      else c # re_sub_unhyphenate (w # n # cs))"
| "re_sub_unhyphenate [c, w] = (if is_hyphen c \<and> w = 10 then [] else [c, w])"
| "re_sub_unhyphenate cs = cs"

text \<open>\<^verbatim>\<open>re.sub(" +", " ", text)\<close>: at a space the greedy match takes the whole run of
  spaces and one space replaces it.\<close>

function re_sub_spaces :: "ustr \<Rightarrow> ustr" where
  "re_sub_spaces [] = []"
| "re_sub_spaces (c # cs) =
     (if c = 32 then 32 # re_sub_spaces (dropWhile (\<lambda>x. x = 32) cs)
      else c # re_sub_spaces cs)"
  by pat_completeness auto
termination
  by (relation "measure length") (auto simp: less_Suc_eq_le length_dropWhile_le)

section \<open>The library the module calls\<close>

text \<open>
  \<^verbatim>\<open>html.unescape\<close>, \<^verbatim>\<open>str.lower\<close>, \<^verbatim>\<open>unicodedata.normalize\<close>,
  \<^verbatim>\<open>unicodedata.combining\<close> and cltk's \<^verbatim>\<open>JVReplacer().replace\<close> are not code of this
  module. They are parameters of the model. \<^verbatim>\<open>html.unescape\<close> can raise: it passes the
  digits of a decimal character reference to \<^verbatim>\<open>int\<close>, which since CPython 3.11 raises
  \<^verbatim>\<open>ValueError\<close> on more than 4300 of them; so \<open>unescape\<close> returns an error or a string.
  The others are total functions on strings, as they are on every Python \<^verbatim>\<open>str\<close>.
  \<open>category_mark c\<close> says that the general category of \<open>c\<close> is Mn, Mc or Me
  (\<^verbatim>\<open>unicodedata.category\<close>); the module never calls it, its specification speaks of it.
\<close>

record pylib =
  unescape :: "ustr \<Rightarrow> error + ustr"
  str_lower :: "ustr \<Rightarrow> ustr"
  jv_replace :: "ustr \<Rightarrow> ustr"
  nfd :: "ustr \<Rightarrow> ustr"
  nfc :: "ustr \<Rightarrow> ustr"
  combining :: "nat \<Rightarrow> nat"
  category_mark :: "nat \<Rightarrow> bool"

section \<open>\<^verbatim>\<open>remove_diacriticals\<close>\<close>

text \<open>
  The generator \<^verbatim>\<open>c for c in range(sys.maxunicode) if unicodedata.combining(chr(c))\<close>:
  every \<open>c\<close> goes through \<^verbatim>\<open>chr\<close>, which can raise, and is kept when its canonical
  combining class is not zero.
\<close>

fun table_keys :: "pylib \<Rightarrow> nat list \<Rightarrow> error + nat list" where
  "table_keys L [] = Inr []"
| "table_keys L (c # cs) =
     (case py_chr c of
        Inl e \<Rightarrow> Inl e
      | Inr ch \<Rightarrow>
          (case table_keys L cs of
             Inl e \<Rightarrow> Inl e
           | Inr ks \<Rightarrow> Inr (if combining L ch \<noteq> 0 then c # ks else ks)))"

definition combining_character_table :: "pylib \<Rightarrow> error + table" where
  "combining_character_table L =
     (case table_keys L [0..<sys_maxunicode] of
        Inl e \<Rightarrow> Inl e
      | Inr ks \<Rightarrow> Inr (dict_fromkeys ks))"

definition remove_diacriticals :: "pylib \<Rightarrow> ustr \<Rightarrow> error + ustr" where
  "remove_diacriticals L text_with_diacriticals =
     (case combining_character_table L of
        Inl e \<Rightarrow> Inl e
      | Inr tbl \<Rightarrow> Inr (py_translate tbl (nfd L text_with_diacriticals)))"

section \<open>\<^verbatim>\<open>preprocess\<close>\<close>

record options =
  lower :: bool
  normalize_opt :: bool
  punctuation :: bool
  numbers :: bool
  unhyphenate :: bool
  remove_lines :: bool
  remove_spaces :: bool
  entities :: bool
  diacriticals :: bool
  fill :: ustr

definition default_options :: options where
  "default_options =
     \<lparr>lower = True, normalize_opt = True, punctuation = False, numbers = False,
      unhyphenate = False, remove_lines = False, remove_spaces = False, entities = False,
      diacriticals = True, fill = [32]\<rparr>"

text \<open>The two string literals of the source. The first holds a backslash: \<^verbatim>\<open>\]\<close> is
  no escape sequence of Python.\<close>

definition punctuation_chars :: ustr where
  "punctuation_chars =
     [34, 35, 36, 37, 38, 39, 40, 41, 42, 43, 44, 47, 58, 59, 60, 61, 62, 64, 91, 92, 93,
      94, 95, 96, 123, 124, 125, 126, 46, 63, 33, 171, 187, 8212, 8220, 45, 8221]"

definition misc_chars :: ustr where
  "misc_chars =
     [161, 163, 164, 165, 166, 167, 168, 169, 175, 176, 177, 178, 179, 180, 181, 182, 183,
      184, 185, 186, 188, 189, 190, 191, 247, 183, 8211, 8216, 8217, 8224, 8226, 8580,
      8734, 9169, 12296, 12297, 65288, 65289]"

definition digit_chars :: ustr where
  "digit_chars = [48, 49, 50, 51, 52, 53, 54, 55, 56, 57]"

text \<open>
  The body assigns to two of its variables: \<^verbatim>\<open>text\<close>, and the parameter
  \<^verbatim>\<open>punctuation\<close>, which holds the flag on entry and the string of punctuation characters
  after the punctuation step has run. The other parameters are only read, from the
  caller's options.
\<close>

datatype pyval = PyBool bool | PyStr ustr

fun truthy :: "pyval \<Rightarrow> bool" where
  "truthy (PyBool b) = b"
| "truthy (PyStr s) = (s \<noteq> [])"

fun str_of :: "pyval \<Rightarrow> ustr" where
  "str_of (PyStr s) = s"
| "str_of (PyBool b) = []"

record frame =
  text_v :: ustr
  punctuation_v :: pyval

definition stmt_entities :: "pylib \<Rightarrow> options \<Rightarrow> frame \<Rightarrow> error + frame" where
  "stmt_entities L opts f =
     (if \<not> entities opts then
        (case unescape L (text_v f) of
           Inl e \<Rightarrow> Inl e
         | Inr s \<Rightarrow> Inr (f\<lparr>text_v := s\<rparr>))
      else Inr f)"

definition stmt_unhyphenate :: "options \<Rightarrow> frame \<Rightarrow> frame" where
  "stmt_unhyphenate opts f =
     (if unhyphenate opts then f\<lparr>text_v := re_sub_unhyphenate (text_v f)\<rparr> else f)"

definition stmt_lower :: "pylib \<Rightarrow> options \<Rightarrow> frame \<Rightarrow> frame" where
  "stmt_lower L opts f =
     (if lower opts then f\<lparr>text_v := str_lower L (text_v f)\<rparr> else f)"

definition stmt_normalize :: "pylib \<Rightarrow> options \<Rightarrow> frame \<Rightarrow> frame" where
  "stmt_normalize L opts f =
     (if normalize_opt opts then f\<lparr>text_v := jv_replace L (text_v f)\<rparr> else f)"

definition stmt_punctuation :: "options \<Rightarrow> frame \<Rightarrow> frame" where
  "stmt_punctuation opts f =
     (if \<not> truthy (punctuation_v f) then
        (let f1 = f\<lparr>punctuation_v := PyStr punctuation_chars\<rparr>;
             misc = misc_chars @ str_of (punctuation_v f1);
             translator = dict_comp misc (fill opts)
         in f1\<lparr>text_v := py_translate translator (text_v f1)\<rparr>)
      else f)"

definition stmt_numbers :: "options \<Rightarrow> frame \<Rightarrow> frame" where
  "stmt_numbers opts f =
     (if \<not> numbers opts then
        (let translator = dict_comp digit_chars (fill opts)
         in f\<lparr>text_v := py_translate translator (text_v f)\<rparr>)
      else f)"

definition stmt_remove_lines :: "options \<Rightarrow> frame \<Rightarrow> frame" where
  "stmt_remove_lines opts f =
     (if remove_lines opts then f\<lparr>text_v := py_join [32] (py_split_sep 10 (text_v f))\<rparr>
      else f)"

definition stmt_remove_spaces :: "options \<Rightarrow> frame \<Rightarrow> frame" where
  "stmt_remove_spaces opts f =
     (if remove_spaces opts then f\<lparr>text_v := py_join (fill opts) (py_split (text_v f))\<rparr>
      else f)"

definition stmt_diacriticals :: "pylib \<Rightarrow> options \<Rightarrow> frame \<Rightarrow> error + frame" where
  "stmt_diacriticals L opts f =
     (if \<not> diacriticals opts then
        (case remove_diacriticals L (text_v f) of
           Inl e \<Rightarrow> Inl e
         | Inr s \<Rightarrow> Inr (f\<lparr>text_v := s\<rparr>))
      else Inr f)"

definition preprocess_body :: "pylib \<Rightarrow> options \<Rightarrow> frame \<Rightarrow> error + frame" where
  "preprocess_body L opts f0 =
     (case stmt_entities L opts f0 of
        Inl e \<Rightarrow> Inl e
      | Inr f1 \<Rightarrow>
          (let f2 = stmt_unhyphenate opts f1;
               f3 = stmt_lower L opts f2;
               f4 = stmt_normalize L opts f3;
               f5 = stmt_punctuation opts f4;
               f6 = stmt_numbers opts f5;
               f7 = stmt_remove_lines opts f6;
               f8 = stmt_remove_spaces opts f7
           in case stmt_diacriticals L opts f8 of
                Inl e \<Rightarrow> Inl e
              | Inr f9 \<Rightarrow>
                  (let f10 = f9\<lparr>text_v := re_sub_spaces (text_v f9)\<rparr>;
                       f11 = f10\<lparr>text_v := nfc L (text_v f10)\<rparr>
                   in Inr f11)))"

definition preprocess :: "pylib \<Rightarrow> options \<Rightarrow> ustr \<Rightarrow> error + ustr" where
  "preprocess L opts text0 =
     (case preprocess_body L opts \<lparr>text_v = text0, punctuation_v = PyBool (punctuation opts)\<rparr> of
        Inl e \<Rightarrow> Inl e
      | Inr f \<Rightarrow> Inr (py_strip (text_v f)))"

section \<open>The steps as the specification words them\<close>

text \<open>
  The specification describes \<^verbatim>\<open>normalize\<close> as twelve steps, each a function from the
  options and the text to the text. They are written here after its section 4.3, not
  after the code, to be compared with \<open>preprocess\<close>. The first, entity decoding, is the
  one that can raise.
\<close>

text \<open>Replace every character of a fixed set with the fill string.\<close>

definition replace_each :: "nat set \<Rightarrow> ustr \<Rightarrow> ustr \<Rightarrow> ustr" where
  "replace_each S v s = concat (map (\<lambda>c. if c \<in> S then v else [c]) s)"

text \<open>The key set of the table \<^verbatim>\<open>remove_diacriticals\<close> builds, and the text without
  the characters in it.\<close>

definition in_combining_table :: "pylib \<Rightarrow> nat \<Rightarrow> bool" where
  "in_combining_table L c = (c < sys_maxunicode \<and> combining L c \<noteq> 0)"

definition strip_combining :: "pylib \<Rightarrow> ustr \<Rightarrow> ustr" where
  "strip_combining L s = filter (\<lambda>c. \<not> in_combining_table L c) (nfd L s)"

text \<open>Collapse every run of one or more spaces into a single space.\<close>

fun collapse_runs :: "ustr \<Rightarrow> ustr" where
  "collapse_runs (a # b # cs) =
     (if a = 32 \<and> b = 32 then collapse_runs (b # cs) else a # collapse_runs (b # cs))"
| "collapse_runs cs = cs"

definition newline_to_space :: "nat \<Rightarrow> nat" where
  "newline_to_space c = (if c = 10 then 32 else c)"

definition entity_decode :: "pylib \<Rightarrow> options \<Rightarrow> ustr \<Rightarrow> error + ustr" where
  "entity_decode L opts s = (if entities opts then Inr s else unescape L s)"

definition unhyphenation :: "options \<Rightarrow> ustr \<Rightarrow> ustr" where
  "unhyphenation opts s = (if unhyphenate opts then re_sub_unhyphenate s else s)"

definition case_folding :: "pylib \<Rightarrow> options \<Rightarrow> ustr \<Rightarrow> ustr" where
  "case_folding L opts s = (if lower opts then str_lower L s else s)"

definition spelling_normalization :: "pylib \<Rightarrow> options \<Rightarrow> ustr \<Rightarrow> ustr" where
  "spelling_normalization L opts s = (if normalize_opt opts then jv_replace L s else s)"

definition punctuation_removal :: "options \<Rightarrow> ustr \<Rightarrow> ustr" where
  "punctuation_removal opts s =
     (if punctuation opts then s
      else replace_each (set misc_chars \<union> set punctuation_chars) (fill opts) s)"

definition number_removal :: "options \<Rightarrow> ustr \<Rightarrow> ustr" where
  "number_removal opts s =
     (if numbers opts then s else replace_each (set digit_chars) (fill opts) s)"

definition line_joining :: "options \<Rightarrow> ustr \<Rightarrow> ustr" where
  "line_joining opts s = (if remove_lines opts then map newline_to_space s else s)"

definition space_collapsing :: "options \<Rightarrow> ustr \<Rightarrow> ustr" where
  "space_collapsing opts s =
     (if remove_spaces opts then py_join (fill opts) (py_split s) else s)"

definition diacritic_removal :: "pylib \<Rightarrow> options \<Rightarrow> ustr \<Rightarrow> ustr" where
  "diacritic_removal L opts s = (if diacriticals opts then s else strip_combining L s)"

definition whitespace_collapse :: "ustr \<Rightarrow> ustr" where
  "whitespace_collapse s = collapse_runs s"

definition unicode_recomposition :: "pylib \<Rightarrow> ustr \<Rightarrow> ustr" where
  "unicode_recomposition L s = nfc L s"

definition trim :: "ustr \<Rightarrow> ustr" where
  "trim s = py_strip s"

text \<open>Section 4.1 of the specification: decompose, then delete every code point whose
  Unicode category is a combining mark.\<close>

definition strip_diacritics_spec :: "pylib \<Rightarrow> ustr \<Rightarrow> ustr" where
  "strip_diacritics_spec L s = filter (\<lambda>c. \<not> category_mark L c) (nfd L s)"

section \<open>An excerpt of the library\<close>

text \<open>
  A concrete library for evaluating the module on concrete texts. It is an excerpt:
  \<^item> \<open>unescape\<close> decodes \<^verbatim>\<open>&amp;\<close>, left to right and without rescanning, and raises
    \<^verbatim>\<open>ValueError\<close> at \<^verbatim>\<open>&#\<close> followed by more than 4300 decimal digits, as
    \<^verbatim>\<open>html.unescape\<close> does; it decodes nothing else;
  \<^item> \<open>str_lower\<close> lowers the letters A to Z;
  \<^item> \<open>jv_replace\<close> maps j, v, J, V to i, u, I, U, which is all cltk's replacer does;
  \<^item> the Unicode data cover ASCII and U+00E9 (e with acute, U+0065 U+0301), U+01F0
    (j with caron, U+006A U+030C), U+037E (Greek question mark, canonically U+003B),
    U+0301 and U+030C (category Mn, class 230) and U+20DD (combining enclosing circle,
    category Me, class 0).
  It computes what CPython 3.11 (Unicode 14) and cltk compute on the texts over these
  code points in which U+0301 follows nothing but e, U+030C nothing but j, and an
  ampersand starts no character reference other than \<^verbatim>\<open>&amp;\<close> and a decimal one of
  more than 4300 digits.
\<close>

definition ascii_lower :: "nat \<Rightarrow> nat" where
  "ascii_lower c = (if 65 \<le> c \<and> c \<le> 90 then c + 32 else c)"

definition jv_char :: "nat \<Rightarrow> nat" where
  "jv_char c = (if c = 106 then 105 else if c = 118 then 117
                else if c = 74 then 73 else if c = 86 then 85 else c)"

definition long_reference :: "ustr \<Rightarrow> bool" where
  "long_reference s =
     (take 2 s = [38, 35] \<and> 4300 < length (takeWhile (\<lambda>c. c \<in> set digit_chars) (drop 2 s)))"

fun unescape_amp :: "ustr \<Rightarrow> error + ustr" where
  "unescape_amp (a # b # c # d # e # cs) =
     (if a = 38 \<and> b = 97 \<and> c = 109 \<and> d = 112 \<and> e = 59
      then map_sum id ((#) 38) (unescape_amp cs)
      else if long_reference (a # b # c # d # e # cs) then Inl ValueError
      else map_sum id ((#) a) (unescape_amp (b # c # d # e # cs)))"
| "unescape_amp cs = Inr cs"

definition decomposition :: "nat \<Rightarrow> ustr" where
  "decomposition c = (if c = 233 then [101, 769] else if c = 496 then [106, 780]
                      else if c = 894 then [59] else [c])"

fun compose_pairs :: "ustr \<Rightarrow> ustr" where
  "compose_pairs (a # b # cs) =
     (if a = 101 \<and> b = 769 then 233 # compose_pairs cs
      else if a = 106 \<and> b = 780 then 496 # compose_pairs cs
      else a # compose_pairs (b # cs))"
| "compose_pairs cs = cs"

definition excerpt :: pylib where
  "excerpt =
     \<lparr>unescape = unescape_amp,
      str_lower = map ascii_lower,
      jv_replace = map jv_char,
      nfd = (\<lambda>s. concat (map decomposition s)),
      nfc = (\<lambda>s. compose_pairs (concat (map decomposition s))),
      combining = (\<lambda>c. if c = 769 \<or> c = 780 then 230 else 0),
      category_mark = (\<lambda>c. c = 769 \<or> c = 780 \<or> c = 8413)\<rparr>"

section \<open>Properties of texts, and what the claims assume of the library\<close>


definition blank :: "ustr \<Rightarrow> bool" where
  "blank s = list_all is_space s"

fun has_double_space :: "ustr \<Rightarrow> bool" where
  "has_double_space (a # b # cs) = ((a = 32 \<and> b = 32) \<or> has_double_space (b # cs))"
| "has_double_space cs = False"

definition single_spaced :: "ustr \<Rightarrow> bool" where
  "single_spaced s = (\<not> has_double_space s)"

definition trimmed :: "ustr \<Rightarrow> bool" where
  "trimmed s = (case s of [] \<Rightarrow> True | c # cs \<Rightarrow> \<not> is_space c \<and> \<not> is_space (last s))"

definition combining_free :: "pylib \<Rightarrow> ustr \<Rightarrow> bool" where
  "combining_free L s = list_all (\<lambda>c. \<not> in_combining_table L c) s"

definition decomposed :: "pylib \<Rightarrow> ustr \<Rightarrow> bool" where
  "decomposed L s = list_all (\<lambda>c. nfd L [c] = [c]) s"

text \<open>
  The library functions are parameters, so what a claim needs of them is a hypothesis of
  its theorem. \<open>preserves P f\<close>: \<open>f\<close> maps texts with the property to texts with it.
  Of CPython's functions the following hold (Unicode 14, checked over all code points):
  NFC and NFD produce no ASCII digit and no space that was not there, and never remove
  what separates two spaces; they, \<^verbatim>\<open>str.lower\<close> and the replacer map whitespace to
  whitespace, and \<^verbatim>\<open>html.unescape\<close> returns whitespace for whitespace; NFD yields fully
  decomposed code points; NFC of decomposed code points of combining class 0 yields code
  points of class 0.
\<close>

definition preserves :: "(ustr \<Rightarrow> bool) \<Rightarrow> (ustr \<Rightarrow> ustr) \<Rightarrow> bool" where
  "preserves P f = (\<forall>s. P s \<longrightarrow> P (f s))"

definition keeps_blank :: "pylib \<Rightarrow> bool" where
  "keeps_blank L =
     ((\<forall>s. blank s \<longrightarrow> (\<exists>t. unescape L s = Inr t \<and> blank t)) \<and> preserves blank (str_lower L)
      \<and> preserves blank (jv_replace L) \<and> preserves blank (nfd L) \<and> preserves blank (nfc L))"

definition nfd_decomposes :: "pylib \<Rightarrow> bool" where
  "nfd_decomposes L = (\<forall>s. decomposed L (nfd L s))"

definition nfc_adds_no_combining :: "pylib \<Rightarrow> bool" where
  "nfc_adds_no_combining L =
     (\<forall>s. decomposed L s \<and> combining_free L s \<longrightarrow> combining_free L (nfc L s))"

section \<open>ASCII texts\<close>

text \<open>
  On a text of ASCII characters the library does little: NFC and NFD change nothing,
  no character has a combining class, \<^verbatim>\<open>str.lower\<close> lowers A to Z, the replacer maps
  j, v, J, V, and \<^verbatim>\<open>html.unescape\<close> returns a text without an ampersand as it is.
  \<open>ascii_library\<close> says so of a library; \<open>ascii_pipeline\<close> is what is left of the twelve
  steps then.
\<close>

definition ascii_text :: "ustr \<Rightarrow> bool" where
  "ascii_text s = list_all (\<lambda>c. c < 128) s"

definition ascii_library :: "pylib \<Rightarrow> bool" where
  "ascii_library L =
     ((\<forall>s. 38 \<notin> set s \<longrightarrow> unescape L s = Inr s)
      \<and> (\<forall>s. ascii_text s \<longrightarrow> str_lower L s = map ascii_lower s)
      \<and> (\<forall>s. ascii_text s \<longrightarrow> jv_replace L s = map jv_char s)
      \<and> (\<forall>s. ascii_text s \<longrightarrow> nfd L s = s)
      \<and> (\<forall>s. ascii_text s \<longrightarrow> nfc L s = s)
      \<and> (\<forall>c. c < 128 \<longrightarrow> combining L c = 0))"

definition ascii_pipeline :: "options \<Rightarrow> ustr \<Rightarrow> ustr" where
  "ascii_pipeline opts s =
     trim (whitespace_collapse (space_collapsing opts (line_joining opts
       (number_removal opts (punctuation_removal opts
         ((if normalize_opt opts then map jv_char else id)
           ((if lower opts then map ascii_lower else id) (unhyphenation opts s))))))))"

text \<open>A character no step targets, and a fill that is the default or made of such
  characters.\<close>

definition untargeted :: "nat \<Rightarrow> bool" where
  "untargeted c =
     (c < 128 \<and> \<not> is_space c \<and> c \<notin> set misc_chars \<and> c \<notin> set punctuation_chars
      \<and> c \<notin> set digit_chars \<and> ascii_lower c = c \<and> jv_char c = c)"

definition plain_fill :: "ustr \<Rightarrow> bool" where
  "plain_fill v = (v = [32] \<or> list_all untargeted v)"

section \<open>The table and the primitives in closed form\<close>

lemma table_keys_Inr:
  "\<forall>c\<in>set cs. c < 1114112 \<Longrightarrow> table_keys L cs = Inr (filter (\<lambda>c. combining L c \<noteq> 0) cs)"
  by (induction cs) (auto simp: py_chr_def)

lemma combining_character_table_Inr:
  "combining_character_table L = Inr (dict_fromkeys (filter (\<lambda>c. combining L c \<noteq> 0) [0..<sys_maxunicode]))"
  unfolding combining_character_table_def
  by (subst table_keys_Inr) (auto simp: sys_maxunicode_def)

lemma fold_upd_None: "fold (\<lambda>k m. m(k \<mapsto> v)) ks m0 c = (if c \<in> set ks then Some v else m0 c)"
  by (induction ks arbitrary: m0) auto

lemma dict_fromkeys_apply: "dict_fromkeys ks c = (if c \<in> set ks then Some None else None)"
  by (simp add: dict_fromkeys_def fold_upd_None)

lemma dict_comp_apply: "dict_comp ks v c = (if c \<in> set ks then Some (Some v) else None)"
  by (simp add: dict_comp_def fold_upd_None)

lemma py_translate_dict_comp: "py_translate (dict_comp ks v) s = replace_each (set ks) v s"
  by (induction s) (auto simp: py_translate_def replace_each_def dict_comp_apply)

lemma remove_diacriticals_Inr: "remove_diacriticals L s = Inr (strip_combining L s)"
proof -
  have "py_translate (dict_fromkeys (filter (\<lambda>c. combining L c \<noteq> 0) [0..<sys_maxunicode])) t
        = filter (\<lambda>c. \<not> in_combining_table L c) t" for t
    by (induction t) (auto simp: py_translate_def dict_fromkeys_apply in_combining_table_def)
  then show ?thesis
    by (simp add: remove_diacriticals_def combining_character_table_Inr strip_combining_def)
qed

lemma split_sep_acc_nonempty: "split_sep_acc sep w s \<noteq> []"
  by (induction s arbitrary: w) auto

lemma py_join_Cons: "ws \<noteq> [] \<Longrightarrow> py_join sep (w # ws) = w @ sep @ py_join sep ws"
  by (cases ws) auto

lemma split_sep_acc_join:
  "py_join [32] (split_sep_acc 10 w s) = w @ map newline_to_space s"
proof (induction s arbitrary: w)
  case Nil then show ?case by simp
next
  case (Cons c cs)
  show ?case
  proof (cases "c = 10")
    case True
    have "py_join [32] (w # split_sep_acc 10 [] cs) = w @ [32] @ py_join [32] (split_sep_acc 10 [] cs)"
      by (rule py_join_Cons) (rule split_sep_acc_nonempty)
    then show ?thesis using True Cons.IH[of "[]"] by (simp add: newline_to_space_def)
  next
    case False
    then show ?thesis using Cons.IH[of "w @ [c]"] by (simp add: newline_to_space_def)
  qed
qed

lemma re_sub_spaces_collapse: "re_sub_spaces s = collapse_runs s"
proof (induction s rule: re_sub_spaces.induct)
  case 1 then show ?case by simp
next
  case (2 c cs)
  show ?case
  proof (cases "c = 32")
    case True
    have "32 # collapse_runs (dropWhile (\<lambda>x. x = 32) cs) = collapse_runs (32 # cs)"
      by (induction cs) auto
    then show ?thesis using True 2 by simp
  next
    case False
    then show ?thesis using 2 by (cases cs) auto
  qed
qed


section \<open>The body of \<^verbatim>\<open>preprocess\<close>, statement by statement\<close>

lemmas stmt_defs = stmt_entities_def stmt_unhyphenate_def stmt_lower_def stmt_normalize_def
  stmt_punctuation_def stmt_numbers_def stmt_remove_lines_def stmt_remove_spaces_def
  stmt_diacriticals_def

lemmas step_defs = entity_decode_def unhyphenation_def case_folding_def
  spelling_normalization_def punctuation_removal_def number_removal_def line_joining_def
  space_collapsing_def diacritic_removal_def whitespace_collapse_def
  unicode_recomposition_def trim_def

lemma py_join_split_sep: "py_join [32] (py_split_sep 10 s) = map newline_to_space s"
  using split_sep_acc_join[of "[]" s] by (simp add: py_split_sep_def)

text \<open>
  Running the body on the caller's text and options: when entity decoding raises, the
  body raises the same error; when it returns, the final text is the rest of the
  twelve-step composition without the trim, every step read from the caller's options.
  The body's own variable \<^verbatim>\<open>punctuation\<close> holds the punctuation string afterwards when
  the flag was false; no later statement reads it.
\<close>

lemma preprocess_body_frame:
  "preprocess_body L opts \<lparr>text_v = s, punctuation_v = PyBool (punctuation opts)\<rparr> =
     (case entity_decode L opts s of
        Inl e \<Rightarrow> Inl e
      | Inr t \<Rightarrow>
          Inr \<lparr>text_v =
                 unicode_recomposition L (whitespace_collapse (diacritic_removal L opts
                   (space_collapsing opts (line_joining opts (number_removal opts
                     (punctuation_removal opts (spelling_normalization L opts
                       (case_folding L opts (unhyphenation opts t))))))))),
               punctuation_v =
                 (if punctuation opts then PyBool True else PyStr punctuation_chars)\<rparr>)"
  by (simp add: preprocess_body_def stmt_defs step_defs Let_def remove_diacriticals_Inr
      py_translate_dict_comp py_join_split_sep re_sub_spaces_collapse split: sum.splits)

lemma preprocess_steps:
  "preprocess L opts s =
     (case entity_decode L opts s of
        Inl e \<Rightarrow> Inl e
      | Inr t \<Rightarrow>
          Inr (trim (unicode_recomposition L (whitespace_collapse (diacritic_removal L opts
            (space_collapsing opts (line_joining opts (number_removal opts
              (punctuation_removal opts (spelling_normalization L opts
                (case_folding L opts (unhyphenation opts t))))))))))))"
  by (simp add: preprocess_def preprocess_body_frame trim_def split: sum.splits)

lemma preprocess_returns:
  "entity_decode L opts s = Inr t \<Longrightarrow>
   preprocess L opts s =
     Inr (trim (unicode_recomposition L (whitespace_collapse (diacritic_removal L opts
       (space_collapsing opts (line_joining opts (number_removal opts
         (punctuation_removal opts (spelling_normalization L opts
           (case_folding L opts (unhyphenation opts t)))))))))))"
  by (simp add: preprocess_steps)

lemma preprocess_raises:
  "entity_decode L opts s = Inl e \<Longrightarrow> preprocess L opts s = Inl e"
  by (simp add: preprocess_steps)

section \<open>The claims\<close>

text \<open>
  Claim C1. For every text and every options record, \<open>preprocess\<close> is the
  composition, in this fixed order, of entity decoding, unhyphenation, lowercasing,
  spelling normalisation, punctuation removal, number removal, line joining, space
  joining, diacritic removal, whitespace collapse, NFC recomposition and trim: it raises
  what entity decoding raises, and otherwise returns what the eleven later steps make of
  the decoded text. Each step is a function of the caller's options and the text that
  yields a text only: the options the steps read are the ones the caller passed, from
  the first step to the last.
\<close>

theorem preprocess_fixed_order:
  "preprocess L opts s =
     (case entity_decode L opts s of
        Inl e \<Rightarrow> Inl e
      | Inr t \<Rightarrow>
          Inr ((trim \<circ> unicode_recomposition L \<circ> whitespace_collapse \<circ> diacritic_removal L opts
                \<circ> space_collapsing opts \<circ> line_joining opts \<circ> number_removal opts
                \<circ> punctuation_removal opts \<circ> spelling_normalization L opts
                \<circ> case_folding L opts \<circ> unhyphenation opts) t))"
  by (simp add: preprocess_steps split: sum.splits)


lemmas excerpt_eval = excerpt_def of_ascii_def default_options_def step_defs replace_each_def
  strip_combining_def in_combining_table_def sys_maxunicode_def punctuation_chars_def
  misc_chars_def digit_chars_def ascii_lower_def jv_char_def decomposition_def py_strip_def
  is_space_def is_hyphen_def py_split_def newline_to_space_def strip_diacritics_spec_def
  long_reference_def

theorem preprocess_fixed_order_witness:
  "preprocess excerpt default_options (of_ascii ''Iam   Venio, 12'') = Inr (of_ascii ''iam uenio'')"
  using preprocess_fixed_order [of excerpt default_options "of_ascii ''Iam   Venio, 12''"]
  by (simp add: excerpt_eval)

text \<open>
  Claim C2, as amended. \<open>remove_diacriticals\<close> returns the NFD form of the text
  without the code points below U+10FFFF whose canonical combining class
  (\<^verbatim>\<open>unicodedata.combining\<close>) is not zero. The claim speaks of the code points whose
  Unicode category is a combining mark instead; the counterexample below is
  U+20DD, of category Me and class 0, which the code keeps.
\<close>

theorem remove_diacriticals_combining_class:
  "remove_diacriticals L s =
     Inr (filter (\<lambda>c. \<not> (c < sys_maxunicode \<and> combining L c \<noteq> 0)) (nfd L s))"
  by (simp add: remove_diacriticals_Inr strip_combining_def in_combining_table_def)

theorem remove_diacriticals_combining_class_witness:
  "remove_diacriticals excerpt [233, 116, 233] = Inr [101, 116, 101]"
  using remove_diacriticals_combining_class [of excerpt "[233, 116, 233]"]
  by (simp add: excerpt_eval)

theorem remove_diacriticals_category_counterexample:
  "remove_diacriticals excerpt [97, 8413] = Inr [97, 8413]
   \<and> strip_diacritics_spec excerpt [97, 8413] = [97]"
  by (simp add: remove_diacriticals_Inr excerpt_eval)

text \<open>
  Claim C3. With the default options \<^verbatim>\<open>foo&amp;bar\<close> does not give \<^verbatim>\<open>foo&bar\<close>: the
  entity is decoded first, and the ampersand it leaves is a punctuation character,
  which the punctuation step replaces with the fill.
\<close>

theorem foo_amp_bar_counterexample:
  "preprocess excerpt default_options (of_ascii ''foo&amp;bar'') = Inr (of_ascii ''foo bar'')
   \<and> preprocess excerpt default_options (of_ascii ''foo&amp;bar'') \<noteq> Inr (of_ascii ''foo&bar'')"
  by (simp add: preprocess_steps excerpt_eval)

text \<open>
  Claim C3, as amended. For every library that decodes \<^verbatim>\<open>&amp;\<close> and leaves the
  strings in question alone otherwise: the entity decoding step turns
  \<^verbatim>\<open>foo&amp;bar\<close> into \<^verbatim>\<open>foo&bar\<close> before the punctuation step runs; with the default
  options the result is \<^verbatim>\<open>foo bar\<close>, and with \<^verbatim>\<open>punctuation=True\<close> it is \<^verbatim>\<open>foo&bar\<close>.
\<close>

theorem foo_amp_bar_decoded_then_stripped:
  assumes "unescape L (of_ascii ''foo&amp;bar'') = Inr (of_ascii ''foo&bar'')"
    and "str_lower L (of_ascii ''foo&bar'') = of_ascii ''foo&bar''"
    and "jv_replace L (of_ascii ''foo&bar'') = of_ascii ''foo&bar''"
    and "nfc L (of_ascii ''foo bar'') = of_ascii ''foo bar''"
    and "nfc L (of_ascii ''foo&bar'') = of_ascii ''foo&bar''"
  shows "entity_decode L default_options (of_ascii ''foo&amp;bar'') = Inr (of_ascii ''foo&bar'')
    \<and> preprocess L default_options (of_ascii ''foo&amp;bar'') = Inr (of_ascii ''foo bar'')
    \<and> preprocess L (default_options\<lparr>punctuation := True\<rparr>) (of_ascii ''foo&amp;bar'')
        = Inr (of_ascii ''foo&bar'')"
proof -
  have 1: "entity_decode L default_options (of_ascii ''foo&amp;bar'') = Inr (of_ascii ''foo&bar'')"
    using assms(1) by (simp add: entity_decode_def default_options_def)
  have e: "entity_decode L (default_options\<lparr>punctuation := True\<rparr>) (of_ascii ''foo&amp;bar'')
      = Inr (of_ascii ''foo&bar'')"
    using assms(1) by (simp add: entity_decode_def default_options_def)
  have l: "case_folding L opts (of_ascii ''foo&bar'') = of_ascii ''foo&bar''"
    if "lower opts" for opts using assms(2) that by (simp add: case_folding_def)
  have j: "spelling_normalization L opts (of_ascii ''foo&bar'') = of_ascii ''foo&bar''"
    if "normalize_opt opts" for opts using assms(3) that by (simp add: spelling_normalization_def)
  have p: "whitespace_collapse (diacritic_removal L default_options (space_collapsing default_options
      (line_joining default_options (number_removal default_options
        (punctuation_removal default_options (of_ascii ''foo&bar''))))))
      = of_ascii ''foo bar''"
    by (simp add: of_ascii_def default_options_def step_defs replace_each_def
        punctuation_chars_def misc_chars_def digit_chars_def)
  have q: "whitespace_collapse (diacritic_removal L (default_options\<lparr>punctuation := True\<rparr>)
      (space_collapsing (default_options\<lparr>punctuation := True\<rparr>)
      (line_joining (default_options\<lparr>punctuation := True\<rparr>)
      (number_removal (default_options\<lparr>punctuation := True\<rparr>)
        (punctuation_removal (default_options\<lparr>punctuation := True\<rparr>) (of_ascii ''foo&bar''))))))
      = of_ascii ''foo&bar''"
    by (simp add: of_ascii_def default_options_def step_defs replace_each_def
        punctuation_chars_def misc_chars_def digit_chars_def)
  have t1: "trim (of_ascii ''foo bar'') = of_ascii ''foo bar''"
    by (simp add: trim_def py_strip_def of_ascii_def is_space_def)
  have t2: "trim (of_ascii ''foo&bar'') = of_ascii ''foo&bar''"
    by (simp add: trim_def py_strip_def of_ascii_def is_space_def)
  have u: "unhyphenation default_options x = x"
    "unhyphenation (default_options\<lparr>punctuation := True\<rparr>) x = x" for x
    by (simp_all add: unhyphenation_def default_options_def)
  have lo: "lower default_options" "lower (default_options\<lparr>punctuation := True\<rparr>)"
    "normalize_opt default_options" "normalize_opt (default_options\<lparr>punctuation := True\<rparr>)"
    by (simp_all add: default_options_def)
  have 2: "preprocess L default_options (of_ascii ''foo&amp;bar'') = Inr (of_ascii ''foo bar'')"
    by (simp only: preprocess_returns[OF 1] u l[OF lo(1)] j[OF lo(3)] p unicode_recomposition_def
        assms(4) t1)
  have 3: "preprocess L (default_options\<lparr>punctuation := True\<rparr>) (of_ascii ''foo&amp;bar'')
        = Inr (of_ascii ''foo&bar'')"
    by (simp only: preprocess_returns[OF e] u l[OF lo(2)] j[OF lo(4)] q unicode_recomposition_def
        assms(5) t2)
  show ?thesis using 1 2 3 by simp
qed

theorem foo_amp_bar_decoded_then_stripped_witness:
  "preprocess excerpt default_options (of_ascii ''foo&amp;bar'') = Inr (of_ascii ''foo bar'')
   \<and> preprocess excerpt (default_options\<lparr>punctuation := True\<rparr>) (of_ascii ''foo&amp;bar'')
        = Inr (of_ascii ''foo&bar'')"
proof -
  have "unescape excerpt (of_ascii ''foo&amp;bar'') = Inr (of_ascii ''foo&bar'')"
    "str_lower excerpt (of_ascii ''foo&bar'') = of_ascii ''foo&bar''"
    "jv_replace excerpt (of_ascii ''foo&bar'') = of_ascii ''foo&bar''"
    "nfc excerpt (of_ascii ''foo bar'') = of_ascii ''foo bar''"
    "nfc excerpt (of_ascii ''foo&bar'') = of_ascii ''foo&bar''"
    by (simp_all add: excerpt_eval)
  from foo_amp_bar_decoded_then_stripped [OF this] show ?thesis by simp
qed

text \<open>
  Claim C7. Whenever \<^verbatim>\<open>remove_lines\<close> is set, whatever \<^verbatim>\<open>remove_spaces\<close> is, the line
  joining statement replaces every newline with one literal space, and does the same
  under every other fill; whenever \<^verbatim>\<open>remove_spaces\<close> is set, whatever \<^verbatim>\<open>remove_lines\<close>
  is, the space joining statement joins the whitespace-separated words of the text with
  the fill, whatever the fill is.
\<close>

theorem line_join_literal_space_space_join_fill:
  "(remove_lines opts \<longrightarrow>
      text_v (stmt_remove_lines opts f) = map newline_to_space (text_v f)
      \<and> stmt_remove_lines (opts\<lparr>fill := v\<rparr>) f = stmt_remove_lines opts f)
   \<and> (remove_spaces opts \<longrightarrow>
      text_v (stmt_remove_spaces (opts\<lparr>fill := v\<rparr>) f) = py_join v (py_split (text_v f)))"
  by (simp add: stmt_remove_lines_def stmt_remove_spaces_def py_join_split_sep)

theorem line_join_literal_space_space_join_fill_witness:
  "text_v (stmt_remove_lines (default_options\<lparr>remove_lines := True\<rparr>)
      \<lparr>text_v = [97, 10, 98], punctuation_v = PyBool False\<rparr>) = of_ascii ''a b''
   \<and> stmt_remove_lines (default_options\<lparr>remove_lines := True, fill := of_ascii ''_''\<rparr>)
      \<lparr>text_v = [97, 10, 98], punctuation_v = PyBool False\<rparr>
     = stmt_remove_lines (default_options\<lparr>remove_lines := True\<rparr>)
      \<lparr>text_v = [97, 10, 98], punctuation_v = PyBool False\<rparr>
   \<and> text_v (stmt_remove_spaces (default_options\<lparr>remove_spaces := True, fill := of_ascii ''_''\<rparr>)
      \<lparr>text_v = [97, 32, 32, 32, 98, 9, 99], punctuation_v = PyBool False\<rparr>)
     = of_ascii ''a_b_c''"
  using line_join_literal_space_space_join_fill
    [of "default_options\<lparr>remove_lines := True\<rparr>"
        "\<lparr>text_v = [97, 10, 98], punctuation_v = PyBool False\<rparr>" "of_ascii ''_''"]
    line_join_literal_space_space_join_fill
    [of "default_options\<lparr>remove_spaces := True\<rparr>"
        "\<lparr>text_v = [97, 32, 32, 32, 98, 9, 99], punctuation_v = PyBool False\<rparr>" "of_ascii ''_''"]
  by (simp add: excerpt_eval)

section \<open>Where \<^verbatim>\<open>preprocess\<close> raises\<close>

lemma takeWhile_digits_replicate:
  "takeWhile (\<lambda>c. c \<in> set digit_chars) (replicate n 49 @ [59]) = replicate n 49"
  by (induction n) (simp_all add: digit_chars_def)

lemma unescape_amp_long:
  assumes "4300 < n"
  shows "unescape_amp (38 # 35 # replicate n 49 @ [59]) = Inl ValueError"
proof -
  have "n = Suc (Suc (Suc (n - 3)))"
    using assms by arith
  then obtain m where n: "n = Suc (Suc (Suc m))" ..
  have l: "long_reference (38 # 35 # replicate n 49 @ [59])"
    using assms by (simp add: long_reference_def takeWhile_digits_replicate)
  show ?thesis using l unfolding n by simp
qed

lemma excerpt_raises_long:
  assumes "4300 < n"
  shows "unescape excerpt (38 # 35 # replicate n 49 @ [59]) = Inl ValueError"
    and "preprocess excerpt default_options (38 # 35 # replicate n 49 @ [59]) = Inl ValueError"
proof -
  show u: "unescape excerpt (38 # 35 # replicate n 49 @ [59]) = Inl ValueError"
    using unescape_amp_long[OF assms] by (simp add: excerpt_def)
  show "preprocess excerpt default_options (38 # 35 # replicate n 49 @ [59]) = Inl ValueError"
    using u by (intro preprocess_raises) (simp add: entity_decode_def default_options_def)
qed

text \<open>
  Claim C8. \<open>preprocess\<close> does not return a string for every text: with the default
  options, on \<^verbatim>\<open>&#\<close> followed by 4301 times the digit 1 and a semicolon,
  \<^verbatim>\<open>html.unescape\<close> raises \<^verbatim>\<open>ValueError\<close>, and so does \<open>preprocess\<close>.
\<close>

theorem preprocess_raises_counterexample:
  "preprocess excerpt default_options (38 # 35 # replicate 4301 49 @ [59]) = Inl ValueError"
  by (rule excerpt_raises_long(2)) simp

text \<open>
  Claim C8, as amended. \<open>preprocess\<close> raises nothing but what \<^verbatim>\<open>html.unescape\<close> raises
  on the text it is given. For every text and every options record: when \<^verbatim>\<open>entities\<close>
  is set, and also when \<^verbatim>\<open>html.unescape\<close> returns on the text, \<open>preprocess\<close> returns a
  string; when \<open>preprocess\<close> raises, \<^verbatim>\<open>entities\<close> is not set and the error is the one
  \<^verbatim>\<open>html.unescape\<close> raised on the text. \<open>remove_diacriticals\<close> returns a string for
  every text: \<^verbatim>\<open>chr\<close>, while the table is built, is always called inside its range.
\<close>

theorem preprocess_raises_only_unescape:
  "(entities opts \<longrightarrow> (\<exists>r. preprocess L opts s = Inr r))
   \<and> (\<forall>t. unescape L s = Inr t \<longrightarrow> (\<exists>r. preprocess L opts s = Inr r))
   \<and> (\<forall>e. preprocess L opts s = Inl e \<longrightarrow> \<not> entities opts \<and> unescape L s = Inl e)
   \<and> (\<exists>r. remove_diacriticals L s = Inr r)
   \<and> (\<exists>tbl. combining_character_table L = Inr tbl)"
  by (simp add: preprocess_steps entity_decode_def remove_diacriticals_Inr
      combining_character_table_Inr split: sum.splits)

theorem preprocess_raises_only_unescape_witness:
  "(\<exists>r. preprocess excerpt (default_options\<lparr>entities := True\<rparr>)
          (38 # 35 # replicate 4301 49 @ [59]) = Inr r)
   \<and> (\<exists>r. preprocess excerpt default_options (of_ascii ''foo&amp;bar'') = Inr r)
   \<and> unescape excerpt (38 # 35 # replicate 4302 49 @ [59]) = Inl ValueError"
proof -
  have a: "entities (default_options\<lparr>entities := True\<rparr>)"
    by simp
  have b: "unescape excerpt (of_ascii ''foo&amp;bar'') = Inr (of_ascii ''foo&bar'')"
    by (simp add: excerpt_eval)
  have c: "preprocess excerpt default_options (38 # 35 # replicate 4302 49 @ [59]) = Inl ValueError"
    by (rule excerpt_raises_long(2)) simp
  show ?thesis
    using preprocess_raises_only_unescape
      [of "default_options\<lparr>entities := True\<rparr>" excerpt "38 # 35 # replicate 4301 49 @ [59]"]
      preprocess_raises_only_unescape [of default_options excerpt "of_ascii ''foo&amp;bar''"]
      preprocess_raises_only_unescape
      [of default_options excerpt "38 # 35 # replicate 4302 49 @ [59]"]
      a b c
    by blast
qed

section \<open>Which characters a step can leave\<close>

lemma set_replace_each: "set (replace_each S v s) \<subseteq> (set s - S) \<union> set v"
  by (induction s) (auto simp: replace_each_def)

lemma replace_each_id: "set s \<inter> S = {} \<Longrightarrow> replace_each S v s = s"
  by (induction s) (auto simp: replace_each_def)

lemma set_split_ws_acc:
  "x \<in> set (split_ws_acc w s) \<Longrightarrow> c \<in> set x \<Longrightarrow> c \<in> set w \<or> (c \<in> set s \<and> \<not> is_space c)"
proof (induction s arbitrary: w)
  case Nil
  then show ?case by (auto split: if_splits)
next
  case (Cons a s)
  show ?case
  proof (cases "is_space a")
    case True
    then have "x = w \<or> x \<in> set (split_ws_acc [] s)"
      using Cons.prems(1) by (auto split: if_splits)
    then show ?thesis using Cons.IH[of "[]"] Cons.prems(2) by auto
  next
    case False
    then have "x \<in> set (split_ws_acc (w @ [a]) s)" using Cons.prems(1) by simp
    from Cons.IH[OF this Cons.prems(2)] False show ?thesis by auto
  qed
qed

lemma set_py_split: "\<Union> (set ` set (py_split s)) \<subseteq> {c \<in> set s. \<not> is_space c}"
  using set_split_ws_acc[of _ "[]" s] by (auto simp: py_split_def)

lemma set_py_join: "set (py_join v ws) \<subseteq> set v \<union> \<Union> (set ` set ws)"
  by (induction v ws rule: py_join.induct) auto

lemma set_collapse_runs: "set (collapse_runs s) \<subseteq> set s"
  by (induction s rule: collapse_runs.induct) auto

lemma set_py_strip: "set (py_strip s) \<subseteq> set s"
proof -
  have "set (dropWhile is_space (rev (dropWhile is_space s))) \<subseteq> set (rev (dropWhile is_space s))"
    by (rule set_dropWhileD[THEN subsetI]) 
  moreover have "set (dropWhile is_space s) \<subseteq> set s"
    by (rule set_dropWhileD[THEN subsetI])
  ultimately show ?thesis by (auto simp: py_strip_def)
qed

lemma set_re_sub_unhyphenate: "set (re_sub_unhyphenate s) \<subseteq> set s"
  by (induction s rule: re_sub_unhyphenate.induct) auto

lemma set_space_collapsing: "set (space_collapsing opts s) \<subseteq> set s \<union> set (fill opts)"
  using set_py_join[of "fill opts" "py_split s"] set_py_split[of s]
  by (auto simp: space_collapsing_def)

lemma set_line_joining: "set (line_joining opts s) \<subseteq> set s \<union> {32}"
  by (auto simp: line_joining_def newline_to_space_def)

lemma set_strip_combining: "set (strip_combining L s) \<subseteq> set (nfd L s)"
  by (auto simp: strip_combining_def)


section \<open>Digits\<close>





section \<open>The excerpt keeps its promises\<close>






section \<open>Spaces\<close>

lemma has_double_space_iff: "has_double_space s \<longleftrightarrow> (\<exists>xs ys. s = xs @ 32 # 32 # ys)"
proof (induction s rule: has_double_space.induct)
  case (1 a b cs)
  show ?case
  proof
    assume "has_double_space (a # b # cs)"
    then consider "a = 32 \<and> b = 32" | "has_double_space (b # cs)" by auto
    then show "\<exists>xs ys. a # b # cs = xs @ 32 # 32 # ys"
    proof cases
      case 1 then show ?thesis by (intro exI[of _ "[]"] exI[of _ cs]) simp
    next
      case 2
      then obtain xs ys where "b # cs = xs @ 32 # 32 # ys" using "1.IH" by blast
      then have "a # b # cs = (a # xs) @ 32 # 32 # ys" by simp
      then show ?thesis by blast
    qed
  next
    assume "\<exists>xs ys. a # b # cs = xs @ 32 # 32 # ys"
    then obtain xs ys where e: "a # b # cs = xs @ 32 # 32 # ys" by blast
    show "has_double_space (a # b # cs)"
    proof (cases xs)
      case Nil then show ?thesis using e by simp
    next
      case (Cons x xs')
      then have "b # cs = xs' @ 32 # 32 # ys" using e by simp
      then have "has_double_space (b # cs)" using "1.IH" by blast
      then show ?thesis by simp
    qed
  qed
qed (simp_all add: Cons_eq_append_conv)

lemma has_double_space_rev: "has_double_space (rev s) = has_double_space s"
proof -
  have "has_double_space (rev t)" if "has_double_space t" for t
  proof -
    from that obtain xs ys where "t = xs @ 32 # 32 # ys" by (auto simp: has_double_space_iff)
    then have "rev t = rev ys @ 32 # 32 # rev xs" by simp
    then show ?thesis unfolding has_double_space_iff by blast
  qed
  from this[of s] this[of "rev s"] show ?thesis by auto
qed

lemma has_double_space_suffix: "has_double_space t \<Longrightarrow> has_double_space (p @ t)"
proof -
  assume "has_double_space t"
  then obtain xs ys where "t = xs @ 32 # 32 # ys" by (auto simp: has_double_space_iff)
  then have "p @ t = (p @ xs) @ 32 # 32 # ys" by simp
  then show ?thesis unfolding has_double_space_iff by blast
qed

lemma has_double_space_dropWhile: "has_double_space (dropWhile P s) \<Longrightarrow> has_double_space s"
  using has_double_space_suffix[of "dropWhile P s" "takeWhile P s"] by simp

lemma single_spaced_py_strip: "single_spaced s \<Longrightarrow> single_spaced (py_strip s)"
  unfolding single_spaced_def py_strip_def
  by (metis has_double_space_rev has_double_space_dropWhile)

lemma single_spaced_collapse_runs: "single_spaced (collapse_runs s)"
proof -
  have "\<not> has_double_space (collapse_runs s) \<and> (s \<noteq> [] \<longrightarrow> collapse_runs s \<noteq> [] \<and> hd (collapse_runs s) = hd s)"
  proof (induction s rule: collapse_runs.induct)
    case (1 a b cs)
    then show ?case by (cases "collapse_runs (b # cs)") auto
  qed simp_all
  then show ?thesis by (simp add: single_spaced_def)
qed

lemma trimmed_py_strip: "trimmed (py_strip s)"
proof -
  define t where "t = dropWhile is_space s"
  define u where "u = dropWhile is_space (rev t)"
  have r: "py_strip s = rev u" by (simp add: py_strip_def t_def u_def)
  show ?thesis
  proof (cases "u = []")
    case True then show ?thesis by (simp add: r trimmed_def)
  next
    case False
    then have hu: "\<not> is_space (hd u)" unfolding u_def by (rule hd_dropWhile)
    have tne: "t \<noteq> []" using False by (auto simp: u_def)
    then have ht: "\<not> is_space (hd t)" unfolding t_def by (rule hd_dropWhile)
    have "rev t = takeWhile is_space (rev t) @ u" by (simp add: u_def)
    then have "last (rev t) = last u" using False by (metis last_appendR)
    then have lu: "last u = hd t" using tne by (simp add: last_rev)
    have "hd (rev u) = last u" using False by (simp add: hd_rev)
    moreover have "last (rev u) = hd u" using False by (simp add: last_rev)
    ultimately have "\<not> is_space (hd (rev u)) \<and> \<not> is_space (last (rev u))"
      using hu ht lu by simp
    moreover have "rev u \<noteq> []" using False by simp
    ultimately show ?thesis unfolding r trimmed_def by (cases "rev u") auto
  qed
qed

text \<open>
  Claim C9. For every text and every options record, whatever the fill, the result of
  \<open>preprocess\<close> has no leading and no trailing whitespace and no two consecutive
  spaces: the collapse of the runs of spaces, NFC and the trim run last. \<open>preprocess\<close>
  returns such a text, unless entity decoding raised, and then it raises that error.
  NFC is assumed to keep a text without two consecutive spaces so.
\<close>

theorem result_trimmed_single_spaced:
  assumes "preserves single_spaced (nfc L)"
  shows "case preprocess L opts s of
           Inl e \<Rightarrow> entity_decode L opts s = Inl e
         | Inr r \<Rightarrow> trimmed r \<and> single_spaced r"
proof (cases "entity_decode L opts s")
  case (Inl e)
  then show ?thesis by (simp add: preprocess_raises)
next
  case (Inr t)
  let ?t = "diacritic_removal L opts (space_collapsing opts (line_joining opts
     (number_removal opts (punctuation_removal opts (spelling_normalization L opts
        (case_folding L opts (unhyphenation opts t)))))))"
  have "single_spaced (whitespace_collapse ?t)"
    by (simp add: whitespace_collapse_def single_spaced_collapse_runs)
  then have "single_spaced (unicode_recomposition L (whitespace_collapse ?t))"
    using assms by (simp add: preserves_def unicode_recomposition_def)
  then have "single_spaced (trim (unicode_recomposition L (whitespace_collapse ?t)))"
    by (simp add: trim_def single_spaced_py_strip)
  moreover have "trimmed (trim (unicode_recomposition L (whitespace_collapse ?t)))"
    by (simp add: trim_def trimmed_py_strip)
  ultimately show ?thesis by (simp add: preprocess_returns[OF Inr])
qed

lemma decomposition_single_spaced:
  "has_double_space (concat (map decomposition s)) \<Longrightarrow> has_double_space s"
proof (induction s rule: has_double_space.induct)
  case (1 a b cs)
  have d: "decomposition x = [x] \<or> decomposition x = [101, 769] \<or> decomposition x = [106, 780]
    \<or> decomposition x = [59]" for x by (simp add: decomposition_def)
  have e: "decomposition x = [32] \<longleftrightarrow> x = 32" for x by (simp add: decomposition_def)
  show ?case
  proof (rule ccontr)
    assume n: "\<not> has_double_space (a # b # cs)"
    then have nb: "\<not> has_double_space (concat (map decomposition (b # cs)))" using "1.IH" by auto
    from n have ab: "\<not> (a = 32 \<and> b = 32)" by simp
    obtain y ys where y: "concat (map decomposition (b # cs)) = y # ys" "y = 32 \<longrightarrow> b = 32"
      using d[of b] by (auto simp: decomposition_def)
    have "\<not> has_double_space (decomposition a @ y # ys)"
      using d[of a] nb ab y e[of a] by (auto simp: decomposition_def split: if_splits)
    then show False using "1.prems" y by simp
  qed
qed (simp_all add: decomposition_def split: if_splits)

lemma compose_pairs_single_spaced:
  "\<not> has_double_space s \<Longrightarrow>
     \<not> has_double_space (compose_pairs s) \<and> (s \<noteq> [] \<longrightarrow> hd s \<noteq> 32 \<longrightarrow> hd (compose_pairs s) \<noteq> 32)
     \<and> (s \<noteq> [] \<longrightarrow> compose_pairs s \<noteq> [])"
proof (induction s rule: compose_pairs.induct)
  case (1 a b cs)
  show ?case
  proof (cases "(a = 101 \<and> b = 769) \<or> (a = 106 \<and> b = 780)")
    case True
    have "\<not> has_double_space cs" using "1.prems" by (cases cs) auto
    then have "\<not> has_double_space (compose_pairs cs)" using True "1.IH"(1,2) by auto
    then show ?thesis using True by (cases "compose_pairs cs") auto
  next
    case False
    have "\<not> has_double_space (b # cs)" using "1.prems" by auto
    then have ih: "\<not> has_double_space (compose_pairs (b # cs))"
      "b \<noteq> 32 \<longrightarrow> hd (compose_pairs (b # cs)) \<noteq> 32" "compose_pairs (b # cs) \<noteq> []"
      using False "1.IH"(3) by auto
    have "\<not> (a = 32 \<and> b = 32)" using "1.prems" by auto
    then show ?thesis using False ih by (cases "compose_pairs (b # cs)") auto
  qed
qed simp_all

lemma excerpt_single_spaced: "preserves single_spaced (nfc excerpt)"
  unfolding preserves_def single_spaced_def
  using decomposition_single_spaced compose_pairs_single_spaced
  by (auto simp: excerpt_def)

theorem result_trimmed_single_spaced_witness:
  "\<exists>r. preprocess excerpt (default_options\<lparr>fill := [32, 32, 9]\<rparr>) (of_ascii ''  a,b   c '') = Inr r
     \<and> trimmed r \<and> single_spaced r"
proof -
  have e: "entity_decode excerpt (default_options\<lparr>fill := [32, 32, 9]\<rparr>) (of_ascii ''  a,b   c '')
      = Inr (of_ascii ''  a,b   c '')"
    by (simp add: excerpt_eval)
  from result_trimmed_single_spaced [OF excerpt_single_spaced,
      where opts = "default_options\<lparr>fill := [32, 32, 9]\<rparr>" and s = "of_ascii ''  a,b   c ''"] e
  show ?thesis by (auto split: sum.splits)
qed

section \<open>Blank texts\<close>

lemma blank_set: "blank s \<longleftrightarrow> (\<forall>c \<in> set s. is_space c)"
  by (simp add: blank_def list_all_iff)

lemma replaced_not_space:
  "list_all (\<lambda>c. \<not> is_space c) (misc_chars @ punctuation_chars @ digit_chars)"
  by (simp add: is_space_def misc_chars_def punctuation_chars_def digit_chars_def)

lemma space_not_replaced:
  "is_space c \<Longrightarrow> c \<notin> set misc_chars \<union> set punctuation_chars \<union> set digit_chars"
  using replaced_not_space by (auto simp: list_all_iff)

lemma blank_py_strip: "blank s \<Longrightarrow> py_strip s = []"
proof -
  assume "blank s"
  then have e: "dropWhile is_space s = []" by (simp add: blank_set)
  show ?thesis unfolding py_strip_def e by simp
qed

lemma blank_split_ws_acc: "blank s \<Longrightarrow> split_ws_acc [] s = []"
  by (induction s) (auto simp: blank_set)

lemma blank_subset: "blank s \<Longrightarrow> set t \<subseteq> set s \<Longrightarrow> blank t"
  by (auto simp: blank_set)

text \<open>
  Claim C10. For every options record, a text that is empty or holds whitespace only
  gives the empty string. The library functions are assumed to map whitespace to
  whitespace.
\<close>

theorem blank_text_gives_empty:
  assumes "keeps_blank L" and "blank s"
  shows "preprocess L opts s = Inr []"
proof -
  have k: "blank t \<Longrightarrow> \<exists>u. unescape L t = Inr u \<and> blank u" "blank t \<Longrightarrow> blank (str_lower L t)"
    "blank t \<Longrightarrow> blank (jv_replace L t)" "blank t \<Longrightarrow> blank (nfd L t)"
    "blank t \<Longrightarrow> blank (nfc L t)" for t
    using assms(1) by (simp_all add: keeps_blank_def preserves_def)
  obtain d where d: "entity_decode L opts s = Inr d" and 1: "blank d"
    using assms(2) k(1)[of s] by (cases "entities opts") (auto simp: entity_decode_def)
  have 2: "blank (unhyphenation opts d)" (is "blank ?t2")
    using 1 blank_subset[OF 1 set_re_sub_unhyphenate] by (simp add: unhyphenation_def)
  have 3: "blank (case_folding L opts ?t2)" (is "blank ?t3")
    using 2 k(2) by (simp add: case_folding_def)
  have 4: "blank (spelling_normalization L opts ?t3)" (is "blank ?t4")
    using 3 k(3) by (simp add: spelling_normalization_def)
  have "set ?t4 \<inter> (set misc_chars \<union> set punctuation_chars) = {}"
    using 4 space_not_replaced by (auto simp: blank_set)
  then have e5: "punctuation_removal opts ?t4 = ?t4"
    by (simp add: punctuation_removal_def replace_each_id)
  have "set ?t4 \<inter> set digit_chars = {}"
    using 4 space_not_replaced by (auto simp: blank_set)
  then have e6: "number_removal opts ?t4 = ?t4"
    by (simp add: number_removal_def replace_each_id)
  have 7: "blank (line_joining opts ?t4)" (is "blank ?t7")
    using 4 by (auto simp: line_joining_def blank_set newline_to_space_def is_space_def)
  have 8: "blank (space_collapsing opts ?t7)" (is "blank ?t8")
    using 7 by (simp add: space_collapsing_def py_split_def blank_split_ws_acc) (simp add: blank_def)
  have 9: "blank (diacritic_removal L opts ?t8)" (is "blank ?t9")
    using 8 blank_subset[OF k(4)[OF 8] set_strip_combining] by (simp add: diacritic_removal_def)
  have 10: "blank (whitespace_collapse ?t9)" (is "blank ?t10")
    using blank_subset[OF 9 set_collapse_runs] by (simp add: whitespace_collapse_def)
  have 11: "blank (unicode_recomposition L ?t10)"
    using 10 k(5) by (simp add: unicode_recomposition_def)
  then have "trim (unicode_recomposition L ?t10) = []"
    by (simp add: trim_def blank_py_strip)
  then show ?thesis by (simp add: preprocess_returns[OF d] e5 e6)
qed

lemma blank_decomposition: "blank s \<Longrightarrow> concat (map decomposition s) = s"
  by (induction s) (auto simp: blank_set decomposition_def is_space_def)

lemma no_mark_compose_pairs: "769 \<notin> set s \<Longrightarrow> 780 \<notin> set s \<Longrightarrow> compose_pairs s = s"
  by (induction s rule: compose_pairs.induct) auto

lemma blank_unescape_amp: "38 \<notin> set s \<Longrightarrow> unescape_amp s = Inr s"
  by (induction s rule: unescape_amp.induct) (auto simp: long_reference_def)

lemma excerpt_keeps_blank: "keeps_blank excerpt"
proof -
  have a: "unescape_amp s = Inr s" if "blank s" for s
    using that by (intro blank_unescape_amp) (auto simp: blank_set is_space_def)
  have b: "map ascii_lower s = s" if "blank s" for s
    using that by (induction s) (auto simp: blank_set is_space_def ascii_lower_def)
  have c: "map jv_char s = s" if "blank s" for s
    using that by (induction s) (auto simp: blank_set is_space_def jv_char_def)
  have d: "compose_pairs s = s" if "blank s" for s
    using that by (intro no_mark_compose_pairs) (auto simp: blank_set is_space_def)
  show ?thesis
    by (simp add: keeps_blank_def preserves_def excerpt_def a b c d blank_decomposition)
qed

theorem blank_text_gives_empty_witness:
  "preprocess excerpt default_options [32, 9, 10, 8198, 32] = Inr []
   \<and> preprocess excerpt (default_options\<lparr>remove_spaces := True, fill := [120]\<rparr>) [] = Inr []"
proof -
  have "blank [32, 9, 10, 8198, 32]" "blank []" by (simp_all add: blank_def is_space_def)
  from blank_text_gives_empty [OF excerpt_keeps_blank this(1)]
       blank_text_gives_empty [OF excerpt_keeps_blank this(2)]
  show ?thesis by simp
qed

section \<open>Combining characters\<close>

lemma combining_free_set: "combining_free L s \<longleftrightarrow> (\<forall>c \<in> set s. \<not> in_combining_table L c)"
  by (simp add: combining_free_def list_all_iff)

lemma decomposed_set: "decomposed L s \<longleftrightarrow> (\<forall>c \<in> set s. nfd L [c] = [c])"
  by (simp add: decomposed_def list_all_iff)

text \<open>
  Claim C6, as amended. When \<^verbatim>\<open>diacriticals\<close> is false, the result of \<open>preprocess\<close> holds no
  code point of the table of \<^verbatim>\<open>remove_diacriticals\<close>, that is none below U+10FFFF whose
  canonical combining class is not zero, for every text and whatever the other options
  are: \<open>preprocess\<close> returns such a text, unless entity decoding raised, and then it
  raises that error. NFD is assumed to yield decomposed code points, and NFC to produce
  no code point of the table from decomposed code points outside it.
\<close>

theorem no_combining_class_without_diacriticals:
  assumes "\<not> diacriticals opts" and "nfd_decomposes L" and "nfc_adds_no_combining L"
  shows "case preprocess L opts s of
           Inl e \<Rightarrow> entity_decode L opts s = Inl e
         | Inr r \<Rightarrow> combining_free L r
             \<and> (\<forall>c \<in> set r. c < sys_maxunicode \<longrightarrow> combining L c = 0)"
proof (cases "entity_decode L opts s")
  case (Inl e)
  then show ?thesis by (simp add: preprocess_raises)
next
  case (Inr t)
  let ?t8 = "space_collapsing opts (line_joining opts (number_removal opts
     (punctuation_removal opts (spelling_normalization L opts (case_folding L opts
        (unhyphenation opts t))))))"
  let ?t9 = "diacritic_removal L opts ?t8"
  have t9: "?t9 = strip_combining L ?t8" using assms(1) by (simp add: diacritic_removal_def)
  have "decomposed L (nfd L ?t8)" using assms(2) by (simp add: nfd_decomposes_def)
  then have d9: "decomposed L ?t9"
    unfolding t9 by (auto simp: decomposed_set strip_combining_def)
  have c9: "combining_free L ?t9"
    unfolding t9 by (auto simp: combining_free_set strip_combining_def)
  have "set (whitespace_collapse ?t9) \<subseteq> set ?t9"
    by (simp add: whitespace_collapse_def set_collapse_runs)
  then have "decomposed L (whitespace_collapse ?t9)" "combining_free L (whitespace_collapse ?t9)"
    using d9 c9 by (auto simp: decomposed_set combining_free_set)
  then have "combining_free L (unicode_recomposition L (whitespace_collapse ?t9))"
    using assms(3) by (simp add: nfc_adds_no_combining_def unicode_recomposition_def)
  then have "combining_free L (trim (unicode_recomposition L (whitespace_collapse ?t9)))"
    using set_py_strip[of "unicode_recomposition L (whitespace_collapse ?t9)"]
    by (auto simp: combining_free_set trim_def)
  then show ?thesis
    by (auto simp: preprocess_returns[OF Inr] combining_free_set in_combining_table_def)
qed

lemma stable_decomposition: "\<forall>c \<in> set s. decomposition c = [c] \<Longrightarrow> concat (map decomposition s) = s"
  by (induction s) auto

lemma excerpt_nfd_decomposes: "nfd_decomposes excerpt"
proof -
  have "decomposition c = [c]" if "c \<in> set (concat (map decomposition s))" for c s
    using that by (induction s) (auto simp: decomposition_def split: if_splits)
  then show ?thesis by (simp add: nfd_decomposes_def decomposed_set excerpt_def)
qed

lemma excerpt_nfc_adds_no_combining: "nfc_adds_no_combining excerpt"
proof -
  have "combining_free excerpt (nfc excerpt s)"
    if d: "decomposed excerpt s" and c: "combining_free excerpt s" for s
  proof -
    have "concat (map decomposition s) = s"
      using d by (intro stable_decomposition) (simp add: decomposed_set excerpt_def)
    moreover have "769 \<notin> set s" "780 \<notin> set s"
      using c by (auto simp: combining_free_set in_combining_table_def excerpt_def sys_maxunicode_def)
    ultimately have "nfc excerpt s = s" by (simp add: excerpt_def no_mark_compose_pairs)
    then show ?thesis using c by simp
  qed
  then show ?thesis by (simp add: nfc_adds_no_combining_def)
qed

theorem no_combining_class_without_diacriticals_witness:
  "\<exists>r. preprocess excerpt (default_options\<lparr>diacriticals := False\<rparr>) [233, 116, 233] = Inr r
     \<and> combining_free excerpt r \<and> (\<forall>c \<in> set r. c < sys_maxunicode \<longrightarrow> combining excerpt c = 0)"
proof -
  have h: "\<not> diacriticals (default_options\<lparr>diacriticals := False\<rparr>)" by simp
  have e: "entity_decode excerpt (default_options\<lparr>diacriticals := False\<rparr>) [233, 116, 233]
      = Inr [233, 116, 233]"
    by (simp add: excerpt_eval)
  from no_combining_class_without_diacriticals
    [OF h excerpt_nfd_decomposes excerpt_nfc_adds_no_combining, where s = "[233, 116, 233]"] e
  show ?thesis by (auto split: sum.splits)
qed

text \<open>
  Claim C6. The claim speaks of Unicode combining marks, the code points of category
  Mn, Mc and Me. U+20DD is one, of combining class 0: it is not in the table, and the
  result of \<open>preprocess\<close> with \<^verbatim>\<open>diacriticals=False\<close> still holds it.
\<close>

theorem category_mark_survives_counterexample:
  "preprocess excerpt (default_options\<lparr>diacriticals := False\<rparr>) [97, 8413] = Inr [97, 8413]
   \<and> category_mark excerpt 8413"
  by (simp add: preprocess_steps excerpt_eval)

section \<open>Running twice\<close>

text \<open>
  Claim C4. Running \<open>preprocess\<close> twice is not always running it once, also with the
  default fill. With the default options NFC turns the Greek question mark U+037E into
  a semicolon after the punctuation step has run, and the second run removes it. With
  \<^verbatim>\<open>unhyphenate\<close> and the punctuation kept, removing one hyphenated line break can
  bring the next hyphen before a newline. With the punctuation kept, decoding
  \<^verbatim>\<open>&amp;amp;\<close> leaves \<^verbatim>\<open>&amp;\<close>, which the second run decodes again.
\<close>

theorem not_idempotent_counterexample:
  "preprocess excerpt default_options [894] = Inr [59]
   \<and> preprocess excerpt default_options [59] = Inr []
   \<and> preprocess excerpt (default_options\<lparr>unhyphenate := True, punctuation := True\<rparr>)
        [97, 45, 45, 10, 10, 10, 98] = Inr [97, 45, 10, 98]
   \<and> preprocess excerpt (default_options\<lparr>unhyphenate := True, punctuation := True\<rparr>)
        [97, 45, 10, 98] = Inr [97, 98]
   \<and> preprocess excerpt (default_options\<lparr>punctuation := True\<rparr>) (of_ascii ''&amp;amp;'')
        = Inr (of_ascii ''&amp;'')
   \<and> preprocess excerpt (default_options\<lparr>punctuation := True\<rparr>) (of_ascii ''&amp;'')
        = Inr (of_ascii ''&'')"
  by (simp add: preprocess_steps excerpt_eval)

lemma ascii_text_set: "ascii_text s \<longleftrightarrow> (\<forall>c \<in> set s. c < 128)"
  by (simp add: ascii_text_def list_all_iff)

lemma ascii_lower_less: "c < 128 \<Longrightarrow> ascii_lower c < 128"
  by (simp add: ascii_lower_def)

lemma jv_char_less: "c < 128 \<Longrightarrow> jv_char c < 128"
  by (simp add: jv_char_def)

lemma strip_combining_ascii:
  assumes "ascii_library L" and "ascii_text s"
  shows "strip_combining L s = s"
proof -
  have "nfd L s = s" using assms by (simp add: ascii_library_def)
  moreover have "\<not> in_combining_table L c" if "c \<in> set s" for c
    using that assms by (auto simp: ascii_library_def ascii_text_set in_combining_table_def)
  ultimately show ?thesis by (simp add: strip_combining_def)
qed

lemma preprocess_ascii:
  assumes lib: "ascii_library L" and s: "ascii_text s" and amp: "entities opts \<or> 38 \<notin> set s"
    and v: "ascii_text (fill opts)"
  shows "preprocess L opts s = Inr (ascii_pipeline opts s)"
proof -
  have 1: "entity_decode L opts s = Inr s"
    using lib amp by (auto simp: entity_decode_def ascii_library_def)
  define u2 where "u2 = unhyphenation opts s"
  have a2: "ascii_text u2"
    using s set_re_sub_unhyphenate[of s] by (auto simp: u2_def unhyphenation_def ascii_text_set)
  define u3 where "u3 = (if lower opts then map ascii_lower else id) u2"
  have 3: "case_folding L opts u2 = u3"
    using lib a2 by (simp add: case_folding_def u3_def ascii_library_def)
  have a3: "ascii_text u3"
    using a2 by (auto simp: u3_def ascii_text_set ascii_lower_less)
  define u4 where "u4 = (if normalize_opt opts then map jv_char else id) u3"
  have 4: "spelling_normalization L opts u3 = u4"
    using lib a3 by (simp add: spelling_normalization_def u4_def ascii_library_def)
  have a4: "ascii_text u4"
    using a3 by (auto simp: u4_def ascii_text_set jv_char_less)
  define u5 where "u5 = punctuation_removal opts u4"
  have a5: "ascii_text u5"
    using a4 v set_replace_each[of "set misc_chars \<union> set punctuation_chars" "fill opts" u4]
    by (auto simp: u5_def punctuation_removal_def ascii_text_set)
  define u6 where "u6 = number_removal opts u5"
  have a6: "ascii_text u6"
    using a5 v set_replace_each[of "set digit_chars" "fill opts" u5]
    by (auto simp: u6_def number_removal_def ascii_text_set)
  define u7 where "u7 = line_joining opts u6"
  have a7: "ascii_text u7"
    using a6 set_line_joining[of opts u6] by (auto simp: u7_def ascii_text_set)
  define u8 where "u8 = space_collapsing opts u7"
  have a8: "ascii_text u8"
    using a7 v set_space_collapsing[of opts u7] by (auto simp: u8_def ascii_text_set)
  have 9: "diacritic_removal L opts u8 = u8"
    using strip_combining_ascii[OF lib a8] by (simp add: diacritic_removal_def)
  have a10: "ascii_text (whitespace_collapse u8)"
    using a8 set_collapse_runs[of u8] by (auto simp: whitespace_collapse_def ascii_text_set)
  have 11: "unicode_recomposition L (whitespace_collapse u8) = whitespace_collapse u8"
    using lib a10 by (simp add: unicode_recomposition_def ascii_library_def)
  have "preprocess L opts s = Inr (trim (whitespace_collapse u8))"
    unfolding preprocess_returns[OF 1]
    unfolding u2_def[symmetric] 3 4 u5_def[symmetric] u6_def[symmetric] u7_def[symmetric]
      u8_def[symmetric] 9 11 ..
  then show ?thesis
    by (simp add: ascii_pipeline_def u8_def u7_def u6_def u5_def u4_def u3_def u2_def)
qed


lemma targeted_eval:
  "38 \<in> set punctuation_chars" "45 \<in> set punctuation_chars" "187 \<in> set punctuation_chars"
  "8212 \<in> set punctuation_chars"
  by (simp_all add: punctuation_chars_def)

lemma space_plain:
  "32 \<notin> set misc_chars" "32 \<notin> set punctuation_chars" "32 \<notin> set digit_chars"
  "ascii_lower 32 = 32" "jv_char 32 = 32" "\<not> is_hyphen 32"
  using space_not_replaced[of 32]
  by (simp_all add: is_space_def ascii_lower_def jv_char_def is_hyphen_def)

lemma plain_fill_char: "plain_fill v \<Longrightarrow> c \<in> set v \<Longrightarrow> c = 32 \<or> untargeted c"
  by (auto simp: plain_fill_def list_all_iff)

lemma untargeted_facts:
  assumes "c = 32 \<or> untargeted c"
  shows "c < 128" "c \<notin> set misc_chars" "c \<notin> set punctuation_chars" "c \<notin> set digit_chars"
    "ascii_lower c = c" "jv_char c = c" "c \<noteq> 10" "c \<noteq> 38" "\<not> is_hyphen c"
proof -
  show "c < 128" "c \<notin> set misc_chars" "c \<notin> set punctuation_chars" "c \<notin> set digit_chars"
    "ascii_lower c = c" "jv_char c = c"
    using assms space_plain by (auto simp: untargeted_def)
  then show "c \<noteq> 38" "\<not> is_hyphen c" using targeted_eval by (auto simp: is_hyphen_def)
  show "c \<noteq> 10" using assms by (auto simp: untargeted_def is_space_def)
qed

text \<open>From the punctuation step on, a step only deletes characters or inserts the fill
  or a space.\<close>

lemma tail_keeps:
  assumes q: "\<And>c. c = 32 \<or> untargeted c \<Longrightarrow> Q c" and v: "plain_fill (fill opts)"
    and t: "\<forall>c \<in> set t. Q c"
  shows "\<forall>c \<in> set (punctuation_removal opts t). Q c"
    and "\<forall>c \<in> set (number_removal opts t). Q c"
    and "\<forall>c \<in> set (line_joining opts t). Q c"
    and "\<forall>c \<in> set (space_collapsing opts t). Q c"
    and "\<forall>c \<in> set (whitespace_collapse t). Q c"
    and "\<forall>c \<in> set (trim t). Q c"
proof -
  have f: "Q c" if "c \<in> set (fill opts)" for c
    using that plain_fill_char[OF v] q by blast
  show "\<forall>c \<in> set (punctuation_removal opts t). Q c"
    using t f set_replace_each[of "set misc_chars \<union> set punctuation_chars" "fill opts" t]
    by (auto simp: punctuation_removal_def)
  show "\<forall>c \<in> set (number_removal opts t). Q c"
    using t f set_replace_each[of "set digit_chars" "fill opts" t]
    by (auto simp: number_removal_def)
  show "\<forall>c \<in> set (line_joining opts t). Q c"
    using t q[of 32] set_line_joining[of opts t] by auto
  show "\<forall>c \<in> set (space_collapsing opts t). Q c"
    using t f set_space_collapsing[of opts t] by auto
  show "\<forall>c \<in> set (whitespace_collapse t). Q c"
    using t set_collapse_runs[of t] by (auto simp: whitespace_collapse_def)
  show "\<forall>c \<in> set (trim t). Q c"
    using t set_py_strip[of t] by (auto simp: trim_def)
qed

lemma tail_keeps_from_lines:
  assumes q: "\<And>c. c = 32 \<or> untargeted c \<Longrightarrow> Q c" and v: "plain_fill (fill opts)"
    and t: "\<forall>c \<in> set t. Q c"
  shows "\<forall>c \<in> set (trim (whitespace_collapse (space_collapsing opts t))). Q c"
  by (intro tail_keeps(6)[OF q v] tail_keeps(5)[OF q v] tail_keeps(4)[OF q v] t)

lemma tail_keeps_from_numbers:
  assumes q: "\<And>c. c = 32 \<or> untargeted c \<Longrightarrow> Q c" and v: "plain_fill (fill opts)"
    and t: "\<forall>c \<in> set t. Q c"
  shows "\<forall>c \<in> set (trim (whitespace_collapse (space_collapsing opts (line_joining opts t)))). Q c"
  by (intro tail_keeps_from_lines[OF q v] tail_keeps(3)[OF q v] t)

lemma tail_keeps_from_punctuation:
  assumes q: "\<And>c. c = 32 \<or> untargeted c \<Longrightarrow> Q c" and v: "plain_fill (fill opts)"
    and t: "\<forall>c \<in> set t. Q c"
  shows "\<forall>c \<in> set (trim (whitespace_collapse (space_collapsing opts (line_joining opts
           (number_removal opts t))))). Q c"
  by (intro tail_keeps_from_numbers[OF q v] tail_keeps(2)[OF q v] t)

lemma tail_keeps_all:
  assumes q: "\<And>c. c = 32 \<or> untargeted c \<Longrightarrow> Q c" and v: "plain_fill (fill opts)"
    and t: "\<forall>c \<in> set t. Q c"
  shows "\<forall>c \<in> set (trim (whitespace_collapse (space_collapsing opts (line_joining opts
           (number_removal opts (punctuation_removal opts t)))))). Q c"
  by (intro tail_keeps_from_punctuation[OF q v] tail_keeps(1)[OF q v] t)

section \<open>Splitting what was joined\<close>

lemma split_ws_acc_words:
  "x \<in> set (split_ws_acc w s) \<Longrightarrow> \<forall>c \<in> set w. \<not> is_space c
     \<Longrightarrow> x \<noteq> [] \<and> (\<forall>c \<in> set x. \<not> is_space c)"
proof (induction s arbitrary: w)
  case Nil
  then show ?case by (auto split: if_splits)
next
  case (Cons a s)
  show ?case
  proof (cases "is_space a")
    case True
    then have "(x = w \<and> w \<noteq> []) \<or> x \<in> set (split_ws_acc [] s)"
      using Cons.prems(1) by (auto split: if_splits)
    then show ?thesis using Cons.IH[of "[]"] Cons.prems(2) by auto
  next
    case False
    then have "x \<in> set (split_ws_acc (w @ [a]) s)" using Cons.prems(1) by simp
    moreover have "\<forall>c \<in> set (w @ [a]). \<not> is_space c" using False Cons.prems(2) by simp
    ultimately show ?thesis by (rule Cons.IH)
  qed
qed

lemma py_split_words: "x \<in> set (py_split s) \<Longrightarrow> x \<noteq> [] \<and> (\<forall>c \<in> set x. \<not> is_space c)"
  using split_ws_acc_words[of x "[]" s] by (simp add: py_split_def)

lemma split_ws_acc_append:
  "\<forall>c \<in> set v. \<not> is_space c \<Longrightarrow> split_ws_acc w (v @ s) = split_ws_acc (w @ v) s"
  by (induction v arbitrary: w) auto

lemma py_split_word: "\<forall>c \<in> set s. \<not> is_space c \<Longrightarrow> py_split s = (if s = [] then [] else [s])"
  using split_ws_acc_append[of s "[]" "[]"] by (simp add: py_split_def)

lemma py_split_join_space:
  "\<forall>w \<in> set ws. w \<noteq> [] \<and> (\<forall>c \<in> set w. \<not> is_space c) \<Longrightarrow> py_split (py_join [32] ws) = ws"
proof (induction "[32::nat]" ws rule: py_join.induct)
  case 1
  then show ?case by (simp add: py_split_def)
next
  case (2 w)
  then show ?case by (simp add: py_split_word)
next
  case (3 w v ws)
  have sp: "is_space 32" by (simp add: is_space_def)
  have "py_split (py_join [32] (w # v # ws)) = split_ws_acc [] (w @ 32 # py_join [32] (v # ws))"
    by (simp add: py_split_def)
  also have "\<dots> = split_ws_acc w (32 # py_join [32] (v # ws))"
    using 3(2) split_ws_acc_append[of w "[]"] by simp
  also have "\<dots> = w # py_split (py_join [32] (v # ws))"
    using 3(2) sp by (simp add: py_split_def)
  also have "\<dots> = w # v # ws" using 3 by simp
  finally show ?case .
qed

lemma no_32_single: "32 \<notin> set s \<Longrightarrow> \<not> has_double_space s"
proof
  assume "32 \<notin> set s" and "has_double_space s"
  then obtain xs ys where "s = xs @ 32 # 32 # ys" using has_double_space_iff by blast
  then have "32 \<in> set s" by simp
  with \<open>32 \<notin> set s\<close> show False by simp
qed

lemma has_double_space_Cons: "a \<noteq> 32 \<Longrightarrow> has_double_space (a # t) = has_double_space t"
  by (cases t) simp_all

lemma has_double_space_32: "t \<noteq> [] \<Longrightarrow> hd t \<noteq> 32 \<Longrightarrow> has_double_space (32 # t) = has_double_space t"
  by (cases t) simp_all

lemma has_double_space_append: "32 \<notin> set u \<Longrightarrow> has_double_space (u @ t) = has_double_space t"
  by (induction u) (simp_all add: has_double_space_Cons)

lemma join_space_shape:
  "\<forall>w \<in> set ws. w \<noteq> [] \<and> (\<forall>c \<in> set w. \<not> is_space c) \<Longrightarrow>
     \<not> has_double_space (py_join [32] ws)
     \<and> (ws \<noteq> [] \<longrightarrow> py_join [32] ws \<noteq> [] \<and> \<not> is_space (hd (py_join [32] ws))
                     \<and> \<not> is_space (last (py_join [32] ws)))"
proof (induction ws)
  case Nil
  then show ?case by simp
next
  case (Cons w ws)
  have w: "w \<noteq> []" "\<forall>c \<in> set w. \<not> is_space c" using Cons.prems by simp_all
  have "hd w \<in> set w" "last w \<in> set w" using w(1) by simp_all
  then have hw: "\<not> is_space (hd w)" "\<not> is_space (last w)" using w(2) by blast+
  have "is_space 32" by (simp add: is_space_def)
  then have w32: "32 \<notin> set w" using w(2) by blast
  show ?case
  proof (cases ws)
    case Nil
    have "\<not> has_double_space w" using w32 by (rule no_32_single)
    then show ?thesis using Nil w(1) hw by simp
  next
    case (Cons v vs)
    let ?J = "py_join [32] ws"
    have prem: "\<forall>w \<in> set ws. w \<noteq> [] \<and> (\<forall>c \<in> set w. \<not> is_space c)"
      using Cons.prems by simp
    have ne: "ws \<noteq> []" using Cons by simp
    have ih: "\<not> has_double_space ?J" "?J \<noteq> []" "\<not> is_space (hd ?J)" "\<not> is_space (last ?J)"
      using Cons.IH[OF prem] ne by blast+
    have h: "hd ?J \<noteq> 32" using ih(3) \<open>is_space 32\<close> by metis
    have e: "py_join [32] (w # ws) = w @ 32 # ?J" unfolding Cons by simp
    have "has_double_space (w @ 32 # ?J) = has_double_space (32 # ?J)"
      using w32 by (rule has_double_space_append)
    also have "\<dots> = has_double_space ?J" using ih(2) h by (rule has_double_space_32)
    finally have 1: "\<not> has_double_space (w @ 32 # ?J)" using ih(1) by simp
    have 2: "hd (w @ 32 # ?J) = hd w" using w(1) by simp
    have 3: "last (w @ 32 # ?J) = last ?J" using ih(2) by simp
    show ?thesis unfolding e 2 3 using 1 hw(1) ih(4) by simp
  qed
qed

lemma single_spaced_collapse_id: "single_spaced s \<Longrightarrow> collapse_runs s = s"
  unfolding single_spaced_def by (induction s rule: collapse_runs.induct) auto

lemma trimmed_py_strip_id: "trimmed s \<Longrightarrow> py_strip s = s"
proof (cases s)
  case Nil
  then show ?thesis by (simp add: py_strip_def)
next
  case (Cons a cs)
  assume "trimmed s"
  then have h: "\<not> is_space a" "\<not> is_space (last s)" using Cons by (auto simp: trimmed_def)
  have 1: "dropWhile is_space s = s" using h(1) Cons by simp
  have "rev s \<noteq> []" "hd (rev s) = last s" using Cons by (simp_all add: hd_rev)
  then obtain b bs where b: "rev s = b # bs" "b = last s" by (cases "rev s") auto
  have "dropWhile is_space (rev s) = rev s" unfolding b(1) using h(2) b(2) by simp
  then show ?thesis by (simp add: py_strip_def 1)
qed


lemma no_space_shape:
  assumes "\<forall>c \<in> set s. \<not> is_space c"
  shows "single_spaced s" "trimmed s"
proof -
  have "is_space 32" by (simp add: is_space_def)
  then have "32 \<notin> set s" using assms by blast
  then show "single_spaced s" unfolding single_spaced_def by (rule no_32_single)
  show "trimmed s"
  proof (cases s)
    case Nil
    then show ?thesis by (simp add: trimmed_def)
  next
    case (Cons a cs)
    then have "a \<in> set s" "last s \<in> set s" by simp_all
    then have "\<not> is_space a" "\<not> is_space (last s)" using assms by blast+
    then show ?thesis unfolding trimmed_def Cons by simp
  qed
qed

lemma joined_fixed:
  assumes v: "plain_fill (fill opts)" and r: "remove_spaces opts"
  shows "trim (whitespace_collapse (space_collapsing opts s)) = space_collapsing opts s
     \<and> space_collapsing opts (space_collapsing opts s) = space_collapsing opts s"
proof -
  let ?ws = "py_split s"
  let ?u = "py_join (fill opts) ?ws"
  have u: "space_collapsing opts s = ?u" using r by (simp add: space_collapsing_def)
  have ws: "\<forall>w \<in> set ?ws. w \<noteq> [] \<and> (\<forall>c \<in> set w. \<not> is_space c)"
    using py_split_words by blast
  have "single_spaced ?u \<and> trimmed ?u \<and> py_join (fill opts) (py_split ?u) = ?u"
  proof (cases "fill opts = [32]")
    case True
    have sh: "\<not> has_double_space (py_join [32] ?ws)"
      "?ws \<noteq> [] \<longrightarrow> py_join [32] ?ws \<noteq> [] \<and> \<not> is_space (hd (py_join [32] ?ws))
         \<and> \<not> is_space (last (py_join [32] ?ws))"
      using join_space_shape[OF ws] by auto
    have "trimmed (py_join [32] ?ws)"
    proof (cases "?ws = []")
      case True then show ?thesis by (simp add: trimmed_def)
    next
      case False
      then show ?thesis using sh(2) by (cases "py_join [32] ?ws") (auto simp: trimmed_def)
    qed
    then show ?thesis
      using True sh(1) py_split_join_space[OF ws] by (simp add: single_spaced_def)
  next
    case False
    then have f: "\<forall>c \<in> set (fill opts). \<not> is_space c"
      using v by (auto simp: plain_fill_def list_all_iff untargeted_def)
    have ns: "\<forall>c \<in> set ?u. \<not> is_space c"
      using f ws set_py_join[of "fill opts" ?ws] by auto
    have "py_join (fill opts) (py_split ?u) = ?u"
      by (simp add: py_split_word[OF ns])
    then show ?thesis using no_space_shape[OF ns] by simp
  qed
  then show ?thesis
    using r by (simp add: u trim_def whitespace_collapse_def single_spaced_collapse_id
        trimmed_py_strip_id space_collapsing_def)
qed

lemma no_hyphen_unhyphenate: "\<forall>c \<in> set s. \<not> is_hyphen c \<Longrightarrow> re_sub_unhyphenate s = s"
  by (induction s rule: re_sub_unhyphenate.induct) auto

section \<open>Running twice on ASCII text\<close>

lemma ascii_lower_idem: "ascii_lower (ascii_lower c) = ascii_lower c"
  by (simp add: ascii_lower_def)

lemma jv_char_idem: "jv_char (jv_char c) = jv_char c"
  by (simp add: jv_char_def)

lemma jv_char_lower: "ascii_lower c = c \<Longrightarrow> ascii_lower (jv_char c) = jv_char c"
  by (auto simp: ascii_lower_def jv_char_def split: if_splits)

lemma map_not_amp: "c \<noteq> 38 \<Longrightarrow> ascii_lower c \<noteq> 38" "c \<noteq> 38 \<Longrightarrow> jv_char c \<noteq> 38"
  by (auto simp: ascii_lower_def jv_char_def split: if_splits)

lemma map_keeps:
  "\<forall>c \<in> set t. Q c \<Longrightarrow> (\<And>c. Q c \<Longrightarrow> Q (f c))
     \<Longrightarrow> \<forall>c \<in> set ((if b then map f else id) t). Q c"
  by auto

lemma ascii_pipeline_fixed:
  assumes v: "plain_fill (fill opts)" and hy: "punctuation opts \<longrightarrow> \<not> unhyphenate opts"
  shows "ascii_pipeline opts (ascii_pipeline opts s) = ascii_pipeline opts s"
proof -
  define u2 where "u2 = unhyphenation opts s"
  define u3 where "u3 = (if lower opts then map ascii_lower else id) u2"
  define u4 where "u4 = (if normalize_opt opts then map jv_char else id) u3"
  define u5 where "u5 = punctuation_removal opts u4"
  define u6 where "u6 = number_removal opts u5"
  define u7 where "u7 = line_joining opts u6"
  define u8 where "u8 = space_collapsing opts u7"
  define r where "r = trim (whitespace_collapse u8)"
  have r: "ascii_pipeline opts s = r"
    by (simp add: ascii_pipeline_def r_def u8_def u7_def u6_def u5_def u4_def u3_def u2_def)
  note r5 = r_def[unfolded u8_def u7_def u6_def]
  note r4 = r5[unfolded u5_def]
  have fillc: "c = 32 \<or> untargeted c" if "c \<in> set (fill opts)" for c
    using v that by (rule plain_fill_char)
  have p_lower: "\<forall>c \<in> set r. ascii_lower c = c" if "lower opts"
  proof -
    have "\<forall>c \<in> set u3. ascii_lower c = c" using that by (simp add: u3_def ascii_lower_idem)
    then have "\<forall>c \<in> set u4. ascii_lower c = c" by (auto simp: u4_def jv_char_lower)
    then show ?thesis unfolding r4
      by (intro tail_keeps_all[where Q = "\<lambda>c. ascii_lower c = c"] untargeted_facts(5) v)
  qed
  have p_jv: "\<forall>c \<in> set r. jv_char c = c" if "normalize_opt opts"
  proof -
    have "\<forall>c \<in> set u4. jv_char c = c" using that by (simp add: u4_def jv_char_idem)
    then show ?thesis unfolding r4
      by (intro tail_keeps_all[where Q = "\<lambda>c. jv_char c = c"] untargeted_facts(6) v)
  qed
  have p_punct: "\<forall>c \<in> set r. c \<notin> set misc_chars \<union> set punctuation_chars"
    if "\<not> punctuation opts"
  proof -
    have q: "c \<notin> set misc_chars \<union> set punctuation_chars" if "c = 32 \<or> untargeted c" for c
      using untargeted_facts(2,3)[OF that] by simp
    have "c \<notin> set misc_chars \<union> set punctuation_chars" if "c \<in> set (fill opts)" for c
      using q[OF fillc[OF that]] .
    then have "\<forall>c \<in> set u5. c \<notin> set misc_chars \<union> set punctuation_chars"
      using \<open>\<not> punctuation opts\<close>
        set_replace_each[of "set misc_chars \<union> set punctuation_chars" "fill opts" u4]
      unfolding u5_def punctuation_removal_def by auto
    then show ?thesis unfolding r5
      by (intro tail_keeps_from_punctuation
            [where Q = "\<lambda>c. c \<notin> set misc_chars \<union> set punctuation_chars"] q v)
  qed
  have p_digit: "\<forall>c \<in> set r. c \<notin> set digit_chars" if "\<not> numbers opts"
  proof -
    have "c \<notin> set digit_chars" if "c \<in> set (fill opts)" for c
      using untargeted_facts(4)[OF fillc[OF that]] .
    then have "\<forall>c \<in> set u6. c \<notin> set digit_chars"
      using \<open>\<not> numbers opts\<close> set_replace_each[of "set digit_chars" "fill opts" u5]
      unfolding u6_def number_removal_def by auto
    then show ?thesis unfolding r_def u8_def u7_def
      by (intro tail_keeps_from_numbers[where Q = "\<lambda>c. c \<notin> set digit_chars"]
            untargeted_facts(4) v)
  qed
  have p_nl: "\<forall>c \<in> set r. c \<noteq> 10" if "remove_lines opts"
  proof -
    have "\<forall>c \<in> set u7. c \<noteq> 10"
      using that by (auto simp: u7_def line_joining_def newline_to_space_def)
    then show ?thesis unfolding r_def u8_def
      by (intro tail_keeps_from_lines[where Q = "\<lambda>c. c \<noteq> 10"] untargeted_facts(7) v)
  qed
  have p_join: "space_collapsing opts r = r" if "remove_spaces opts"
    using joined_fixed[OF v that, of u7] by (simp add: r_def u8_def)
  have p_single: "single_spaced r"
    unfolding r_def trim_def whitespace_collapse_def
    by (intro single_spaced_py_strip single_spaced_collapse_runs)
  have p_trim: "trimmed r" unfolding r_def trim_def by (rule trimmed_py_strip)
  have e2: "unhyphenation opts r = r"
  proof (cases "unhyphenate opts")
    case True
    then have "\<not> punctuation opts" using hy by blast
    then have "\<forall>c \<in> set r. \<not> is_hyphen c"
      using p_punct targeted_eval by (auto simp: is_hyphen_def)
    then show ?thesis by (simp add: unhyphenation_def no_hyphen_unhyphenate)
  next
    case False
    then show ?thesis by (simp add: unhyphenation_def)
  qed
  have e3: "(if lower opts then map ascii_lower else id) r = r"
    using p_lower by (auto intro: map_idI)
  have e4: "(if normalize_opt opts then map jv_char else id) r = r"
    using p_jv by (auto intro: map_idI)
  have e5: "punctuation_removal opts r = r"
    using p_punct by (auto simp: punctuation_removal_def intro!: replace_each_id)
  have e6: "number_removal opts r = r"
    using p_digit by (auto simp: number_removal_def intro!: replace_each_id)
  have e7: "line_joining opts r = r"
    using p_nl by (auto simp: line_joining_def newline_to_space_def intro!: map_idI)
  have e8: "space_collapsing opts r = r"
    using p_join by (cases "remove_spaces opts") (simp_all add: space_collapsing_def)
  have e10: "whitespace_collapse r = r"
    using p_single by (simp add: whitespace_collapse_def single_spaced_collapse_id)
  have e12: "trim r = r" using p_trim by (simp add: trim_def trimmed_py_strip_id)
  have "ascii_pipeline opts r = r"
    unfolding ascii_pipeline_def e2 e3 e4 e5 e6 e7 e8 e10 e12 ..
  then show ?thesis by (simp add: r)
qed

lemma ascii_pipeline_ascii:
  assumes v: "plain_fill (fill opts)" and s: "ascii_text s"
  shows "ascii_text (ascii_pipeline opts s)"
proof -
  let ?u2 = "unhyphenation opts s"
  let ?u3 = "(if lower opts then map ascii_lower else id) ?u2"
  have "ascii_text ?u2"
    using s set_re_sub_unhyphenate[of s] by (auto simp: unhyphenation_def ascii_text_set)
  then have "\<forall>c \<in> set ?u2. c < 128" by (simp add: ascii_text_set)
  then have "\<forall>c \<in> set ?u3. c < 128"
    by (rule map_keeps) (rule ascii_lower_less)
  then have "\<forall>c \<in> set ((if normalize_opt opts then map jv_char else id) ?u3). c < 128"
    by (rule map_keeps) (rule jv_char_less)
  then show ?thesis unfolding ascii_pipeline_def ascii_text_set
    by (intro tail_keeps_all[where Q = "\<lambda>c. c < 128"] untargeted_facts(1) v)
qed

lemma ascii_pipeline_no_amp:
  assumes v: "plain_fill (fill opts)" and s: "38 \<notin> set s"
  shows "38 \<notin> set (ascii_pipeline opts s)"
proof -
  let ?u2 = "unhyphenation opts s"
  let ?u3 = "(if lower opts then map ascii_lower else id) ?u2"
  have "\<forall>c \<in> set ?u2. c \<noteq> 38"
    using s set_re_sub_unhyphenate[of s] by (auto simp: unhyphenation_def)
  then have "\<forall>c \<in> set ?u3. c \<noteq> 38"
    by (rule map_keeps) (rule map_not_amp(1))
  then have "\<forall>c \<in> set ((if normalize_opt opts then map jv_char else id) ?u3). c \<noteq> 38"
    by (rule map_keeps) (rule map_not_amp(2))
  then have "\<forall>c \<in> set (ascii_pipeline opts s). c \<noteq> 38" unfolding ascii_pipeline_def
    by (intro tail_keeps_all[where Q = "\<lambda>c. c \<noteq> 38"] untargeted_facts(8) v)
  then show ?thesis by blast
qed

text \<open>
  Claim C4, as amended. On ASCII text \<open>preprocess\<close> is idempotent: for a library that
  acts on ASCII text as CPython's does, a text of ASCII characters that holds no
  ampersand (or with \<^verbatim>\<open>entities\<close> set), options that do not both keep the
  punctuation and unhyphenate, and a fill that is one space or is made of ASCII
  characters no step targets, running \<open>preprocess\<close> on its own result returns that
  result.
\<close>

theorem idempotent_on_ascii:
  assumes lib: "ascii_library L" and s: "ascii_text s" and amp: "entities opts \<or> 38 \<notin> set s"
    and v: "plain_fill (fill opts)" and hy: "punctuation opts \<longrightarrow> \<not> unhyphenate opts"
  shows "\<exists>r. preprocess L opts s = Inr r \<and> preprocess L opts r = Inr r"
proof -
  have va: "ascii_text (fill opts)"
    using plain_fill_char[OF v] untargeted_facts(1) by (auto simp: ascii_text_set)
  let ?r = "ascii_pipeline opts s"
  have 1: "preprocess L opts s = Inr ?r" by (rule preprocess_ascii[OF lib s amp va])
  have "entities opts \<or> 38 \<notin> set ?r" using amp ascii_pipeline_no_amp[OF v] by blast
  then have "preprocess L opts ?r = Inr (ascii_pipeline opts ?r)"
    by (rule preprocess_ascii[OF lib ascii_pipeline_ascii[OF v s] _ va])
  then have "preprocess L opts ?r = Inr ?r" by (simp add: ascii_pipeline_fixed[OF v hy])
  with 1 show ?thesis by blast
qed

lemma excerpt_ascii_library: "ascii_library excerpt"
proof -
  have d: "concat (map decomposition s) = s" if "ascii_text s" for s
    using that by (intro stable_decomposition) (auto simp: ascii_text_set decomposition_def)
  have c: "compose_pairs s = s" if "ascii_text s" for s
    using that by (intro no_mark_compose_pairs) (auto simp: ascii_text_set)
  show ?thesis
    by (simp add: ascii_library_def excerpt_def blank_unescape_amp d c)
qed

theorem idempotent_on_ascii_witness:
  "\<exists>r. preprocess excerpt default_options (of_ascii ''Veni, vidi -  vici 44'') = Inr r
     \<and> preprocess excerpt default_options r = Inr r"
proof -
  have "ascii_text (of_ascii ''Veni, vidi -  vici 44'')"
    "entities default_options \<or> 38 \<notin> set (of_ascii ''Veni, vidi -  vici 44'')"
    "plain_fill (fill default_options)"
    "punctuation default_options \<longrightarrow> \<not> unhyphenate default_options"
    by (simp_all add: ascii_text_def of_ascii_def default_options_def plain_fill_def)
  from idempotent_on_ascii [OF excerpt_ascii_library this] show ?thesis .
qed

end
